theory Spec2Isabelle
  imports Main "HOL-Library.Sublist"
begin

section \<open>Prompt templates: the two placeholder markers and the split\<close>

text \<open>
  \<^verbatim>\<open>prompt_list_wrap\<close> splits every prompt with
  \<^verbatim>\<open>re.split(r'(<proteinHere>|<structureHere>)', p)\<close>.
  The pattern is an alternation of two literal strings inside one capturing group, so the
  result lists the text between the matches with the matched markers in between. Matches are
  found from left to right, do not overlap, and at every position the first alternative is
  tried first. A prompt is a \<open>string\<close>; both markers are ASCII, so the byte view of a
  Python string finds the same matches as the code-point view.
\<close>

definition protein_marker :: string where
  "protein_marker = ''<proteinHere>''"

definition structure_marker :: string where
  "structure_marker = ''<structureHere>''"

function re_split_aux :: "string \<Rightarrow> string \<Rightarrow> string list" where
  "re_split_aux acc [] = [acc]"
| "re_split_aux acc (c # cs) =
     (if prefix protein_marker (c # cs)
      then acc # protein_marker # re_split_aux [] (drop (length protein_marker) (c # cs))
      else if prefix structure_marker (c # cs)
      then acc # structure_marker # re_split_aux [] (drop (length structure_marker) (c # cs))
      else re_split_aux (acc @ [c]) cs)"
  by pat_completeness auto
termination
  by (relation "measure (\<lambda>(acc, s). length s)")
     (auto simp: protein_marker_def structure_marker_def)

definition re_split :: "string \<Rightarrow> string list" where
  "re_split p = re_split_aux [] p"

text \<open>The test of line 229 on the list returned by the split.\<close>

definition prompt_ok :: "string \<Rightarrow> bool" where
  "prompt_ok p =
     (let splits = re_split p
      in length splits = 5 \<and> splits ! 1 = protein_marker \<and> splits ! 3 = structure_marker)"

section \<open>Errors and tensors\<close>

text \<open>
  Every exception that the modelled code can raise is a value:
  \<^item> \<open>FormatError\<close>: the \<^verbatim>\<open>ValueError("Prompt format is incorrect. ...")\<close> of line 234;
  \<^item> \<open>TensorError\<close>: the \<^verbatim>\<open>ValueError\<close> of the tokenizer when
    \<^verbatim>\<open>return_tensors="pt"\<close> is asked for and the rows of token ids are not of one length
    (or there is no row at all);
  \<^item> \<open>ShapeError\<close>: the \<^verbatim>\<open>RuntimeError\<close> of \<^verbatim>\<open>torch.cat\<close> when the tensors differ
    in a dimension other than the one concatenated;
  \<^item> \<open>UnpackError\<close>: the \<^verbatim>\<open>ValueError\<close> of
    \<^verbatim>\<open>coords, confidence, padding_mask = zip(*structures)\<close> on an empty list;
  \<^item> \<open>ConcatError\<close>: the \<^verbatim>\<open>ValueError\<close> of \<^verbatim>\<open>np.concatenate\<close> on arrays of
    different trailing dimensions;
  \<^item> \<open>DtypeError\<close>: the \<^verbatim>\<open>RuntimeError\<close> of \<^verbatim>\<open>embed_tokens\<close> on indices that
    are not integers (a tensor made from rows of no ids has dtype \<^verbatim>\<open>float32\<close>);
  \<^item> \<open>BdbQuit\<close>: the exception with which the debugger entered by the
    \<^verbatim>\<open>breakpoint()\<close> of line 250 leaves a run that has no terminal to read from.
\<close>

datatype error =
  FormatError | TensorError | ShapeError | UnpackError | ConcatError | DtypeError | BdbQuit

text \<open>
  A tensor of shape (batch, length) is the list of its rows; a tensor of shape
  (batch, length, hidden) is one whose entries are the hidden vectors, of an abstract type.
  Devices and dtypes are not modelled: \<^verbatim>\<open>.to(device)\<close> and the dtype casts are the identity.
\<close>

type_synonym 'a tensor = "'a list list"

definition dim1 :: "'a tensor \<Rightarrow> nat" where
  "dim1 t = (case t of [] \<Rightarrow> 0 | r # _ \<Rightarrow> length r)"

definition rectangular :: "'a tensor \<Rightarrow> bool" where
  "rectangular t = list_all (\<lambda>r. length r = dim1 t) t"

text \<open>
  The dtype that \<^verbatim>\<open>return_tensors="pt"\<close> gives the tensor of token ids: rows with ids
  make an integer tensor; a batch of rows that are all empty makes a \<^verbatim>\<open>float32\<close> tensor
  of shape (batch, 0).
\<close>

datatype dtype = Int64 | Float32

definition dtype_of :: "int tensor \<Rightarrow> dtype" where
  "dtype_of t = (if t \<noteq> [] \<and> list_all (\<lambda>r. r = []) t then Float32 else Int64)"

text \<open>\<^verbatim>\<open>torch.cat(ts, dim=1)\<close>: the batch sizes must agree; row by row the pieces are appended.\<close>

definition cat_dim1 :: "'a tensor list \<Rightarrow> error + 'a tensor" where
  "cat_dim1 ts =
     (case ts of
        [] \<Rightarrow> Inl ShapeError
      | t # rest \<Rightarrow>
          if list_all (\<lambda>u. length u = length t) rest
          then Inr (map (\<lambda>i. concat (map (\<lambda>u. u ! i) ts)) [0..<length t])
          else Inl ShapeError)"

text \<open>\<^verbatim>\<open>np.concatenate(arrays, axis=0)\<close> on arrays of shape (batch, length, ...).\<close>

definition np_concatenate :: "'a tensor list \<Rightarrow> error + 'a tensor" where
  "np_concatenate arrays =
     (let rows = concat arrays
      in if arrays \<noteq> [] \<and> rectangular rows then Inr rows else Inl ConcatError)"

section \<open>The model object\<close>

datatype side = PadLeft | PadRight

text \<open>
  The output \<^verbatim>\<open>["encoder_out"][0]\<close> of the structure encoder has shape
  (length, batch, hidden); it is kept with its two leading dimensions explicit.
\<close>

record 'h encoder_out =
  out_len :: nat
  out_batch :: nat
  out_at :: "nat \<Rightarrow> nat \<Rightarrow> 'h"

type_synonym ('c, 'f) str_tokens = "'c tensor \<times> 'f tensor \<times> bool tensor"

text \<open>
  The pretrained sub-models are parameters of the model: the structure predictor
  (\<open>alphafold\<close>, its method \<^verbatim>\<open>predict_structure\<close>), the batch converter and the sequence
  encoder of ESM-2 (layer 33), the structure encoder, the two linear projections, the language
  model's tokenizer (\<open>llama_encode add_special_tokens text\<close> are the token ids of one
  text), its embedding table and the language model itself, which maps
  \<^verbatim>\<open>inputs_embeds\<close>, \<^verbatim>\<open>attention_mask\<close> and \<^verbatim>\<open>labels\<close> to the loss.
  \<open>breakpoint_quits\<close> is the environment of the run: whether the debugger that
  \<^verbatim>\<open>breakpoint()\<close> enters ends the run with \<^verbatim>\<open>BdbQuit\<close> (no terminal, or the user quits)
  or returns (the user continues, or \<^verbatim>\<open>PYTHONBREAKPOINT=0\<close>).
  \<open>'c\<close>, \<open>'f\<close>: a residue's coordinates and confidence; \<open>'p\<close>, \<open>'h\<close>: the
  vectors of the two encoders; \<open>'e\<close>: a vector of the language model's hidden size;
  \<open>'l\<close>: the loss.
\<close>

record ('c, 'f, 'p, 'h, 'e, 'l) proteinchat =
  alphafold :: "string list \<Rightarrow> ('c, 'f) str_tokens list"
  protein_tokenizer :: "(string \<times> string) list \<Rightarrow> int tensor"
  protein_encoder :: "int tensor \<Rightarrow> 'p tensor"
  str_encoder :: "'c tensor \<Rightarrow> 'f tensor \<Rightarrow> bool tensor \<Rightarrow> 'h encoder_out"
  glm_llama_proj :: "'p \<Rightarrow> 'e"
  str_llama_proj :: "'h \<Rightarrow> 'e"
  llama_encode :: "bool \<Rightarrow> string \<Rightarrow> int list"
  bos_token_id :: int
  eos_token_id :: int
  embed_tokens :: "int \<Rightarrow> 'e"
  llama_model :: "'e tensor \<Rightarrow> int tensor \<Rightarrow> int tensor \<Rightarrow> 'l"
  max_txt_len :: nat
  end_sym :: string
  breakpoint_quits :: bool

text \<open>Line 108: \<^verbatim>\<open>self.llama_tokenizer.pad_token = self.llama_tokenizer.eos_token\<close>.\<close>

definition pad_token_id :: "('c, 'f, 'p, 'h, 'e, 'l) proteinchat \<Rightarrow> int" where
  "pad_token_id m = eos_token_id m"

section \<open>The tokenizer call\<close>

text \<open>
  \<^verbatim>\<open>self.llama_tokenizer(texts, return_tensors="pt", add_special_tokens=..., padding=...,
  truncation=True, max_length=...)\<close>. Every text is encoded on its own; with truncation a row
  keeps its first \<open>max_length\<close> ids, except that a \<open>max_length\<close> of 0 truncates
  nothing (the library tests \<^verbatim>\<open>max_length and total_len > max_length\<close>); with padding every row is filled with the pad token up
  to the longest row, on the tokenizer's current \<^verbatim>\<open>padding_side\<close>; the attention mask is 1 at
  the ids of the text and 0 at the filling. The padding side is the one piece of mutable
  state that \<^verbatim>\<open>forward\<close> writes, so it is an argument here.
\<close>

definition longest :: "'a list list \<Rightarrow> nat" where
  "longest rows = fold max (map length rows) 0"

definition pad_row :: "side \<Rightarrow> nat \<Rightarrow> 'a \<Rightarrow> 'a list \<Rightarrow> 'a list" where
  "pad_row sd n filler r =
     (case sd of
        PadRight \<Rightarrow> r @ replicate (n - length r) filler
      | PadLeft \<Rightarrow> replicate (n - length r) filler @ r)"

definition llama_tokenizer ::
  "('c, 'f, 'p, 'h, 'e, 'l) proteinchat \<Rightarrow> side \<Rightarrow> string list \<Rightarrow> bool \<Rightarrow> bool \<Rightarrow> nat option
    \<Rightarrow> error + (int tensor \<times> int tensor)" where
  "llama_tokenizer m sd texts add_special_tokens padding max_length =
     (let encoded = map (llama_encode m add_special_tokens) texts;
          rows = (case max_length of
                    None \<Rightarrow> encoded
                  | Some n \<Rightarrow> if n = 0 then encoded else map (take n) encoded);
          ones = map (\<lambda>r. replicate (length r) (1::int)) rows;
          input_ids = (if padding then map (pad_row sd (longest rows) (pad_token_id m)) rows
                       else rows);
          atts = (if padding then map (pad_row sd (longest rows) 0) ones else ones)
      in if texts \<noteq> [] \<and> rectangular input_ids then Inr (input_ids, atts)
         else Inl TensorError)"

text \<open>
  \<^verbatim>\<open>self.llama_model.model.embed_tokens(t)\<close> for a tensor \<open>t\<close> of dtype \<open>dt\<close>: the
  lookup of every id, when the indices are integers. The table \<open>embed_tokens m\<close> has an
  entry for every id: the ids come from the tokenizer of the same language model.
\<close>

definition embed_ids :: "('c, 'f, 'p, 'h, 'e, 'l) proteinchat \<Rightarrow> int tensor \<Rightarrow> 'e tensor" where
  "embed_ids m input_ids = map (map (embed_tokens m)) input_ids"

definition embed_tokens_call ::
  "('c, 'f, 'p, 'h, 'e, 'l) proteinchat \<Rightarrow> dtype \<Rightarrow> int tensor \<Rightarrow> error + 'e tensor" where
  "embed_tokens_call m dt t = (if dt = Float32 then Inl DtypeError else Inr (embed_ids m t))"

section \<open>The methods of the model\<close>

subsection \<open>\<^verbatim>\<open>reconstruct_protein\<close>\<close>

definition digit_char :: "nat \<Rightarrow> char" where
  "digit_char d = char_of (48 + d)"

function str_nat :: "nat \<Rightarrow> string" where
  "str_nat n = (if n < 10 then [digit_char n] else str_nat (n div 10) @ [digit_char (n mod 10)])"
  by pat_completeness auto
termination
  by (relation "measure id") auto

definition fasta_contents :: "string list \<Rightarrow> string list" where
  "fasta_contents seqs =
     map (\<lambda>(i, s). ''>sequence_'' @ str_nat i @ [CHR 0x0A] @ s) (zip [0..<length seqs] seqs)"

definition reconstruct_protein ::
  "('c, 'f, 'p, 'h, 'e, 'l) proteinchat \<Rightarrow> string list \<Rightarrow> error + ('c, 'f) str_tokens" where
  "reconstruct_protein m seqs =
     (let structures = alphafold m (fasta_contents seqs)
      in if structures = [] then Inl UnpackError
         else
           (case np_concatenate (map fst structures) of
              Inl e \<Rightarrow> Inl e
            | Inr coords \<Rightarrow>
                (case np_concatenate (map (fst \<circ> snd) structures) of
                   Inl e \<Rightarrow> Inl e
                 | Inr confidence \<Rightarrow>
                     (case np_concatenate (map (snd \<circ> snd) structures) of
                        Inl e \<Rightarrow> Inl e
                      | Inr padding_mask \<Rightarrow> Inr (coords, confidence, padding_mask)))))"

subsection \<open>\<^verbatim>\<open>encode_str\<close>\<close>

text \<open>\<^verbatim>\<open>str_tokens.permute([1, 0, 2])\<close>: from (length, batch, hidden) to batch first.\<close>

definition permute_batch_first :: "'h encoder_out \<Rightarrow> 'h tensor" where
  "permute_batch_first out =
     map (\<lambda>b. map (\<lambda>l. out_at out l b) [0..<out_len out]) [0..<out_batch out]"

definition encode_str ::
  "('c, 'f, 'p, 'h, 'e, 'l) proteinchat \<Rightarrow> ('c, 'f) str_tokens \<Rightarrow> 'e tensor \<times> int tensor" where
  "encode_str m str_tokens =
     (case str_tokens of (coords, confidence, padding_mask) \<Rightarrow>
        let encoded = str_encoder m coords confidence (map (map Not) padding_mask);
            str_embeds = map (map (str_llama_proj m)) (permute_batch_first encoded);
            atts_llama = map (map (\<lambda>b. if b then 1 else 0)) padding_mask
        in (str_embeds, atts_llama))"

subsection \<open>\<^verbatim>\<open>encode_protein\<close>\<close>

text \<open>
  The encoder is run twice on the same tokens and the second result is kept;
  \<^verbatim>\<open>squeeze(dim=2)\<close> leaves a hidden dimension of 1280 as it is.
\<close>

definition encode_protein ::
  "('c, 'f, 'p, 'h, 'e, 'l) proteinchat \<Rightarrow> string list \<Rightarrow> 'e tensor \<times> int tensor" where
  "encode_protein m seqs =
     (let batch_seqs = map (\<lambda>s. (''protein'', s)) seqs;
          batch_tokens = protein_tokenizer m batch_seqs;
          protein_embeds = protein_encoder m batch_tokens;
          inputs_llama = map (map (glm_llama_proj m)) protein_embeds;
          atts_llama = map (\<lambda>r. replicate (length r) 1) inputs_llama
      in (inputs_llama, atts_llama))"

subsection \<open>\<^verbatim>\<open>prompt_list_wrap\<close>\<close>

text \<open>
  The loop of lines 226 to 237: the prompts are split in order, the first one that fails the
  test of line 229 raises, and the three text parts of the others are collected.
\<close>

fun split_prompts :: "string list \<Rightarrow> error + (string list \<times> string list \<times> string list)" where
  "split_prompts [] = Inr ([], [], [])"
| "split_prompts (p # ps) =
     (if prompt_ok p
      then (case split_prompts ps of
              Inl e \<Rightarrow> Inl e
            | Inr (befores, betweens, afters) \<Rightarrow>
                Inr (re_split p ! 0 # befores, re_split p ! 2 # betweens, re_split p ! 4 # afters))
      else Inl FormatError)"

text \<open>
  \<^verbatim>\<open>if prompt:\<close> holds for a non-empty list; \<^verbatim>\<open>None\<close> and the empty list take the
  second branch. After the three tokenizer calls the \<^verbatim>\<open>breakpoint()\<close> of line 250 enters
  the debugger, which ends the run or returns; then the three tensors of ids are embedded.
\<close>

definition prompt_list_wrap ::
  "('c, 'f, 'p, 'h, 'e, 'l) proteinchat \<Rightarrow> side \<Rightarrow> 'e tensor \<Rightarrow> int tensor \<Rightarrow> 'e tensor
    \<Rightarrow> int tensor \<Rightarrow> string list \<Rightarrow> error + ('e tensor \<times> int tensor)" where
  "prompt_list_wrap m sd img_embeds atts_img str_embeds atts_str prompt =
     (if prompt \<noteq> [] then
        (case split_prompts prompt of
           Inl e \<Rightarrow> Inl e
         | Inr (p_before_lst, p_between_lst, p_after_lst) \<Rightarrow>
        (case llama_tokenizer m sd p_before_lst False False None of
           Inl e \<Rightarrow> Inl e
         | Inr (before_ids, before_mask) \<Rightarrow>
        (case llama_tokenizer m sd p_between_lst False False None of
           Inl e \<Rightarrow> Inl e
         | Inr (between_ids, between_mask) \<Rightarrow>
        (case llama_tokenizer m sd p_after_lst True True None of
           Inl e \<Rightarrow> Inl e
         | Inr (after_ids, after_mask) \<Rightarrow>
        if breakpoint_quits m then Inl BdbQuit else
        (case embed_tokens_call m (dtype_of before_ids) before_ids of
           Inl e \<Rightarrow> Inl e
         | Inr p_before_embeds \<Rightarrow>
        (case embed_tokens_call m (dtype_of between_ids) between_ids of
           Inl e \<Rightarrow> Inl e
         | Inr p_between_embeds \<Rightarrow>
        (case embed_tokens_call m (dtype_of after_ids) after_ids of
           Inl e \<Rightarrow> Inl e
         | Inr p_after_embeds \<Rightarrow>
        (case cat_dim1 [p_before_embeds, img_embeds, p_between_embeds, str_embeds,
                        p_after_embeds] of
           Inl e \<Rightarrow> Inl e
         | Inr wrapped_embeds \<Rightarrow>
        (case cat_dim1 [before_mask, atts_img, between_mask, atts_str, after_mask] of
           Inl e \<Rightarrow> Inl e
         | Inr wrapped_atts \<Rightarrow> Inr (wrapped_embeds, wrapped_atts))))))))))
      else
        (case cat_dim1 [img_embeds, str_embeds] of
           Inl e \<Rightarrow> Inl e
         | Inr wrapped_embeds \<Rightarrow>
        (case cat_dim1 [atts_img, atts_str] of
           Inl e \<Rightarrow> Inl e
         | Inr wrapped_atts \<Rightarrow> Inr (wrapped_embeds, wrapped_atts))))"

subsection \<open>\<^verbatim>\<open>forward\<close>\<close>

record samples =
  seq :: "string list"
  prompt :: "string list"
  text_input :: "string list"

record 'e lm_call =
  inputs_embeds :: "'e tensor"
  attention_mask :: "int tensor"
  labels :: "int tensor"

text \<open>Lines 279 to 287: the fused prompt block, with the padding side found at the call.\<close>

definition forward_fused ::
  "('c, 'f, 'p, 'h, 'e, 'l) proteinchat \<Rightarrow> side \<Rightarrow> samples \<Rightarrow> error + ('e tensor \<times> int tensor)" where
  "forward_fused m sd x =
     (case reconstruct_protein m (seq x) of
        Inl e \<Rightarrow> Inl e
      | Inr str_tokens \<Rightarrow>
          (case encode_str m str_tokens of (str_embeds, atts_str) \<Rightarrow>
           case encode_protein m (seq x) of (protein_embeds, atts_protein) \<Rightarrow>
             prompt_list_wrap m sd protein_embeds atts_protein str_embeds atts_str (prompt x)))"

text \<open>Lines 291 to 300, after line 289 has set the padding side to the right.\<close>

definition target_tokens ::
  "('c, 'f, 'p, 'h, 'e, 'l) proteinchat \<Rightarrow> string list \<Rightarrow> error + (int tensor \<times> int tensor)" where
  "target_tokens m texts =
     llama_tokenizer m PadRight (map (\<lambda>t. t @ end_sym m) texts) False True (Some (max_txt_len m))"

text \<open>
  Lines 291 to 328: the three arguments of the call of the language model. The tensor
  \<^verbatim>\<open>bos\<close> is made with the dtype of the target ids.
\<close>

definition lm_inputs ::
  "('c, 'f, 'p, 'h, 'e, 'l) proteinchat \<Rightarrow> 'e tensor \<Rightarrow> int tensor \<Rightarrow> string list
    \<Rightarrow> error + 'e lm_call" where
  "lm_inputs m img_embeds atts_img texts =
     (case target_tokens m texts of
        Inl e \<Rightarrow> Inl e
      | Inr (input_ids, text_mask) \<Rightarrow>
     (let targets = map (map (\<lambda>t. if t = pad_token_id m then - 100 else t)) input_ids;
          empty_targets = replicate (length atts_img) (replicate (dim1 atts_img + 1) (- 100))
      in case cat_dim1 [empty_targets, targets] of
           Inl e \<Rightarrow> Inl e
         | Inr targets' \<Rightarrow>
     (let batch_size = length img_embeds;
          bos = replicate batch_size [1 * bos_token_id m]
      in case embed_tokens_call m (dtype_of input_ids) bos of
           Inl e \<Rightarrow> Inl e
         | Inr bos_embeds \<Rightarrow>
     (let atts_bos = map (take 1) atts_img
      in case embed_tokens_call m (dtype_of input_ids) input_ids of
           Inl e \<Rightarrow> Inl e
         | Inr to_regress_embeds \<Rightarrow>
        (case cat_dim1 [bos_embeds, img_embeds, to_regress_embeds] of
           Inl e \<Rightarrow> Inl e
         | Inr embeds \<Rightarrow>
        (case cat_dim1 [atts_bos, atts_img, text_mask] of
           Inl e \<Rightarrow> Inl e
         | Inr atts \<Rightarrow>
             Inr \<lparr>inputs_embeds = embeds, attention_mask = atts, labels = targets'\<rparr>))))))"

text \<open>
  \<^verbatim>\<open>forward\<close> up to the call of the language model, with the tokenizer's padding side
  before and after: an exception before line 289 leaves it as it was.
\<close>

definition forward_call ::
  "('c, 'f, 'p, 'h, 'e, 'l) proteinchat \<Rightarrow> side \<Rightarrow> samples \<Rightarrow> (error + 'e lm_call) \<times> side" where
  "forward_call m sd x =
     (case forward_fused m sd x of
        Inl e \<Rightarrow> (Inl e, sd)
      | Inr (img_embeds, atts_img) \<Rightarrow> (lm_inputs m img_embeds atts_img (text_input x), PadRight))"

definition forward ::
  "('c, 'f, 'p, 'h, 'e, 'l) proteinchat \<Rightarrow> side \<Rightarrow> samples \<Rightarrow> (error + 'l) \<times> side" where
  "forward m sd x =
     (case forward_call m sd x of
        (Inl e, sd') \<Rightarrow> (Inl e, sd')
      | (Inr c, sd') \<Rightarrow>
          (Inr (llama_model m (inputs_embeds c) (attention_mask c) (labels c)), sd'))"

section \<open>Well-formed prompts, in the words of the specification\<close>

text \<open>
  A prompt template contains exactly one sequence placeholder and exactly one structure
  placeholder, in that order. \<open>count_sub m s\<close> counts the positions of \<open>s\<close> at which
  \<open>m\<close> occurs, \<open>first_sub m s\<close> is the first of them.
\<close>

fun count_sub :: "string \<Rightarrow> string \<Rightarrow> nat" where
  "count_sub m [] = 0"
| "count_sub m (c # cs) = (if prefix m (c # cs) then 1 else 0) + count_sub m cs"

fun first_sub :: "string \<Rightarrow> string \<Rightarrow> nat option" where
  "first_sub m [] = None"
| "first_sub m (c # cs) =
     (if prefix m (c # cs) then Some 0 else map_option Suc (first_sub m cs))"

definition in_order :: "string \<Rightarrow> bool" where
  "in_order p =
     (case (first_sub protein_marker p, first_sub structure_marker p) of
        (Some i, Some j) \<Rightarrow> i < j
      | _ \<Rightarrow> False)"

definition wellformed :: "string \<Rightarrow> bool" where
  "wellformed p \<longleftrightarrow>
     count_sub protein_marker p = 1 \<and> count_sub structure_marker p = 1 \<and> in_order p"

section \<open>The pieces of a wrapped prompt\<close>

text \<open>
  The token ids of the text before the sequence placeholder and of the text between the two
  placeholders, and the padded token ids and the mask of the text after the structure
  placeholder, for one prompt \<open>p\<close> of the prompt list \<open>ps\<close>.
\<close>

definition prefix_ids :: "('c, 'f, 'p, 'h, 'e, 'l) proteinchat \<Rightarrow> string \<Rightarrow> int list" where
  "prefix_ids m p = llama_encode m False (re_split p ! 0)"

definition middle_ids :: "('c, 'f, 'p, 'h, 'e, 'l) proteinchat \<Rightarrow> string \<Rightarrow> int list" where
  "middle_ids m p = llama_encode m False (re_split p ! 2)"

definition suffix_len :: "('c, 'f, 'p, 'h, 'e, 'l) proteinchat \<Rightarrow> string list \<Rightarrow> nat" where
  "suffix_len m ps = longest (map (\<lambda>p. llama_encode m True (re_split p ! 4)) ps)"

definition suffix_ids ::
  "('c, 'f, 'p, 'h, 'e, 'l) proteinchat \<Rightarrow> side \<Rightarrow> string list \<Rightarrow> string \<Rightarrow> int list" where
  "suffix_ids m sd ps p =
     pad_row sd (suffix_len m ps) (pad_token_id m) (llama_encode m True (re_split p ! 4))"

definition suffix_mask ::
  "('c, 'f, 'p, 'h, 'e, 'l) proteinchat \<Rightarrow> side \<Rightarrow> string list \<Rightarrow> string \<Rightarrow> int list" where
  "suffix_mask m sd ps p =
     pad_row sd (suffix_len m ps) 0
       (replicate (length (llama_encode m True (re_split p ! 4))) 1)"

section \<open>What a run takes from the sub-models\<close>

text \<open>
  The encoders are black boxes. The statements about shapes take from them, in the run at
  hand, what a tensor of the right shape is: the output of the sequence encoder is a tensor
  (its rows have one length), and the structure encoder returns one vector for every entry
  of the padding mask it is given, that is, an output of shape (length, batch, hidden) for
  a mask of shape (batch, length). \<open>protein_nonempty\<close> says that the sequence encoder
  returns at least one position for every sequence (the batch converter of ESM-2 puts a
  start token before every sequence).
\<close>

definition protein_output ::
  "('c, 'f, 'p, 'h, 'e, 'l) proteinchat \<Rightarrow> string list \<Rightarrow> 'p tensor" where
  "protein_output m seqs =
     protein_encoder m (protein_tokenizer m (map (\<lambda>s. (''protein'', s)) seqs))"

definition str_encoder_shape_ok ::
  "('c, 'f, 'p, 'h, 'e, 'l) proteinchat \<Rightarrow> ('c, 'f) str_tokens \<Rightarrow> bool" where
  "str_encoder_shape_ok m str_tokens =
     (case str_tokens of (coords, confidence, padding_mask) \<Rightarrow>
        let out = str_encoder m coords confidence (map (map Not) padding_mask)
        in out_batch out = length padding_mask
           \<and> list_all (\<lambda>r. length r = out_len out) padding_mask)"

definition encoders_ok :: "('c, 'f, 'p, 'h, 'e, 'l) proteinchat \<Rightarrow> string list \<Rightarrow> bool" where
  "encoders_ok m seqs =
     (rectangular (protein_output m seqs)
      \<and> (case reconstruct_protein m seqs of
            Inl e \<Rightarrow> True
          | Inr str_tokens \<Rightarrow> str_encoder_shape_ok m str_tokens))"

definition protein_nonempty :: "('c, 'f, 'p, 'h, 'e, 'l) proteinchat \<Rightarrow> string list \<Rightarrow> bool" where
  "protein_nonempty m seqs = list_all (\<lambda>r. r \<noteq> []) (protein_output m seqs)"

text \<open>
  The token ids of one target text before padding, and the length all rows are padded to.
\<close>

definition target_row :: "('c, 'f, 'p, 'h, 'e, 'l) proteinchat \<Rightarrow> string \<Rightarrow> int list" where
  "target_row m t =
     (if max_txt_len m = 0 then llama_encode m False (t @ end_sym m)
      else take (max_txt_len m) (llama_encode m False (t @ end_sym m)))"

definition target_len :: "('c, 'f, 'p, 'h, 'e, 'l) proteinchat \<Rightarrow> string list \<Rightarrow> nat" where
  "target_len m texts = longest (map (target_row m) texts)"

section \<open>Auxiliary functions of the proofs\<close>

text \<open>The markers of a string in the order in which they occur.\<close>

fun scan :: "string \<Rightarrow> string list" where
  "scan [] = []"
| "scan (c # cs) =
     (if prefix protein_marker (c # cs) then protein_marker # scan cs
      else if prefix structure_marker (c # cs) then structure_marker # scan cs
      else scan cs)"

fun odds :: "'a list \<Rightarrow> 'a list" where
  "odds [] = []"
| "odds [x] = []"
| "odds (x # y # zs) = y # odds zs"

text \<open>An embedding block: a tensor of vectors and an attention mask of the same shape.\<close>

definition block_ok :: "'a tensor \<times> 'b tensor \<Rightarrow> bool" where
  "block_ok blk = (map length (fst blk) = map length (snd blk))"

section \<open>A small model for concrete runs\<close>

text \<open>
  Tokens are character codes, the special token of the language model's tokenizer is the
  BOS id 1, every predicted structure has two residues of which the first is masked, the
  loss weighs every attended position by its index, and the debugger returns.
\<close>

definition toy_loss :: "int tensor \<Rightarrow> int tensor \<Rightarrow> int tensor \<Rightarrow> int" where
  "toy_loss e a l =
     sum_list (map (\<lambda>r. sum_list (map2 (\<lambda>v i. v * int i) r [0..<length r])) a)"

definition toy :: "(unit, unit, int, int, int, int) proteinchat" where
  "toy = \<lparr>
     alphafold = map (\<lambda>s. ([[(), ()]], [[(), ()]], [[False, True]])),
     protein_tokenizer = map (\<lambda>(l, s). map (\<lambda>c. int (of_char c)) s),
     protein_encoder = map (map (\<lambda>t. t + 1000)),
     str_encoder = (\<lambda>c f pm. \<lparr>out_len = dim1 pm, out_batch = length pm,
                               out_at = (\<lambda>l b. if pm ! b ! l then 7 else 8)\<rparr>),
     glm_llama_proj = (\<lambda>p. 2 * p),
     str_llama_proj = (\<lambda>h. 3 * h),
     llama_encode = (\<lambda>special s. (if special then [1] else []) @ map (\<lambda>c. int (of_char c)) s),
     bos_token_id = 1,
     eos_token_id = 2,
     embed_tokens = (\<lambda>t. t + 100),
     llama_model = toy_loss,
     max_txt_len = 3,
     end_sym = [CHR 0x0A],
     breakpoint_quits = False
   \<rparr>"

text \<open>The same model configured with a maximal text length of 0.\<close>

definition toy_unlimited :: "(unit, unit, int, int, int, int) proteinchat" where
  "toy_unlimited = toy\<lparr>max_txt_len := 0\<rparr>"

text \<open>Two input records, and what the model computes on them.\<close>

definition toy_samples :: samples where
  "toy_samples = \<lparr>seq = [''MK'', ''AC''],
     prompt = [''a<proteinHere>b<structureHere>c'', ''a<proteinHere>b<structureHere>cd''],
     text_input = [''hi'', ''a'']\<rparr>"

definition toy_bare :: samples where
  "toy_bare = \<lparr>seq = [''''], prompt = [], text_input = [''hi'']\<rparr>"

definition toy_fused :: "int tensor \<times> int tensor" where
  "toy_fused =
     ([[197, 2154, 2150, 198, 21, 24, 102, 101, 199],
       [197, 2130, 2134, 198, 21, 24, 101, 199, 200]],
      [[1, 1, 1, 1, 0, 1, 0, 1, 1], [1, 1, 1, 1, 0, 1, 1, 1, 1]])"

definition toy_targets :: "int tensor \<times> int tensor" where
  "toy_targets = ([[104, 105, 10], [97, 10, 2]], [[1, 1, 1], [1, 1, 0]])"

definition toy_call :: "int lm_call" where
  "toy_call =
     \<lparr>inputs_embeds =
        [[101, 197, 2154, 2150, 198, 21, 24, 102, 101, 199, 204, 205, 110],
         [101, 197, 2130, 2134, 198, 21, 24, 101, 199, 200, 197, 110, 102]],
      attention_mask =
        [[1, 1, 1, 1, 1, 0, 1, 0, 1, 1, 1, 1, 1], [1, 1, 1, 1, 1, 0, 1, 1, 1, 1, 1, 1, 0]],
      labels =
        [[- 100, - 100, - 100, - 100, - 100, - 100, - 100, - 100, - 100, - 100, 104, 105, 10],
         [- 100, - 100, - 100, - 100, - 100, - 100, - 100, - 100, - 100, - 100, 97, 10, - 100]]\<rparr>"

definition toy_bare_call :: "int lm_call" where
  "toy_bare_call =
     \<lparr>inputs_embeds = [[101, 21, 24, 204, 205, 110]],
      attention_mask = [[0, 0, 1, 1, 1, 1]],
      labels = [[- 100, - 100, - 100, 104, 105, 10]]\<rparr>"

section \<open>The split finds every marker\<close>

lemma scan_skip_protein:
  "prefix protein_marker s \<Longrightarrow> scan (drop (length protein_marker) s) = scan (tl s)"
  by (auto simp: protein_marker_def structure_marker_def elim!: prefixE)

lemma scan_skip_structure:
  "prefix structure_marker s \<Longrightarrow> scan (drop (length structure_marker) s) = scan (tl s)"
  by (auto simp: protein_marker_def structure_marker_def elim!: prefixE)

lemma markers_exclusive: "prefix protein_marker s \<Longrightarrow> \<not> prefix structure_marker s"
  by (auto simp: protein_marker_def structure_marker_def elim!: prefixE)

lemma markers_distinct: "protein_marker \<noteq> structure_marker"
  by (simp add: protein_marker_def structure_marker_def)

lemma odds_re_split_aux: "odds (re_split_aux acc s) = scan s"
proof (induction acc s rule: re_split_aux.induct)
  case (1 acc)
  show ?case by simp
next
  case (2 acc c cs)
  show ?case
  proof (cases "prefix protein_marker (c # cs)")
    case True
    with 2(1) scan_skip_protein[OF True] show ?thesis by simp
  next
    case False
    show ?thesis
    proof (cases "prefix structure_marker (c # cs)")
      case True
      with False 2(2) scan_skip_structure[OF True] show ?thesis by simp
    next
      case notS: False
      with False 2(3) show ?thesis by simp
    qed
  qed
qed

lemma length_re_split_aux: "length (re_split_aux acc s) = 2 * length (scan s) + 1"
proof (induction acc s rule: re_split_aux.induct)
  case (1 acc)
  show ?case by simp
next
  case (2 acc c cs)
  show ?case
  proof (cases "prefix protein_marker (c # cs)")
    case True
    with 2(1) scan_skip_protein[OF True] show ?thesis by simp
  next
    case False
    show ?thesis
    proof (cases "prefix structure_marker (c # cs)")
      case True
      with False 2(2) scan_skip_structure[OF True] show ?thesis by simp
    next
      case notS: False
      with False 2(3) show ?thesis by simp
    qed
  qed
qed

lemma concat_re_split_aux: "concat (re_split_aux acc s) = acc @ s"
proof (induction acc s rule: re_split_aux.induct)
  case (1 acc)
  show ?case by simp
next
  case (2 acc c cs)
  show ?case
  proof (cases "prefix protein_marker (c # cs)")
    case True
    then have "c # cs = protein_marker @ drop (length protein_marker) (c # cs)"
      by (metis append_eq_conv_conj prefixE)
    with True 2(1) show ?thesis by simp
  next
    case False
    show ?thesis
    proof (cases "prefix structure_marker (c # cs)")
      case True
      then have "c # cs = structure_marker @ drop (length structure_marker) (c # cs)"
        by (metis append_eq_conv_conj prefixE)
      with True False 2(2) show ?thesis by simp
    next
      case notS: False
      with False 2(3) show ?thesis by simp
    qed
  qed
qed

lemma set_scan: "set (scan s) \<subseteq> {protein_marker, structure_marker}"
  by (induction s) auto

lemma count_sub_protein: "count_sub protein_marker s = count_list (scan s) protein_marker"
  by (induction s) (auto simp: markers_distinct dest: markers_exclusive)

lemma count_sub_structure: "count_sub structure_marker s = count_list (scan s) structure_marker"
  by (induction s) (auto simp: markers_distinct dest: markers_exclusive)

lemma first_sub_protein_None: "first_sub protein_marker s = None \<longleftrightarrow> protein_marker \<notin> set (scan s)"
  by (induction s) (auto simp: markers_distinct dest: markers_exclusive)

lemma first_sub_structure_None: "first_sub structure_marker s = None \<longleftrightarrow> structure_marker \<notin> set (scan s)"
  by (induction s) (auto simp: markers_distinct dest: markers_exclusive)

lemma in_order_scan:
  "in_order s \<longleftrightarrow> (\<exists>ys. scan s = protein_marker # ys \<and> structure_marker \<in> set ys)"
proof (induction s)
  case Nil
  show ?case by (simp add: in_order_def)
next
  case (Cons c cs)
  show ?case
  proof (cases "prefix protein_marker (c # cs)")
    case True
    then have nS: "\<not> prefix structure_marker (c # cs)" by (rule markers_exclusive)
    show ?thesis using True nS first_sub_structure_None[of cs]
      by (auto simp: in_order_def split: option.splits)
  next
    case False
    show ?thesis
    proof (cases "prefix structure_marker (c # cs)")
      case True
      with False show ?thesis
        by (auto simp: in_order_def markers_distinct split: option.splits)
    next
      case notS: False
      have "in_order (c # cs) = in_order cs"
        using False notS by (auto simp: in_order_def split: option.splits)
      with Cons False notS show ?thesis by simp
    qed
  qed
qed


lemma wellformed_scan: "wellformed p \<longleftrightarrow> scan p = [protein_marker, structure_marker]"
proof
  assume wf: "wellformed p"
  then obtain ys where ys: "scan p = protein_marker # ys" "structure_marker \<in> set ys"
    by (auto simp: wellformed_def in_order_scan)
  from wf have cp: "count_list (scan p) protein_marker = 1"
    and cs: "count_list (scan p) structure_marker = 1"
    by (simp_all add: wellformed_def count_sub_protein count_sub_structure)
  from cp ys have noP: "protein_marker \<notin> set ys"
    by (simp add: count_list_0_iff)
  from cs ys have c1: "count_list ys structure_marker = 1"
    by (simp add: markers_distinct)
  from set_scan[of p] ys noP have all: "\<forall>y\<in>set ys. y = structure_marker"
    by auto
  then have "count_list ys structure_marker = length ys"
    by (induction ys) auto
  with c1 have "length ys = 1" by simp
  with all have "ys = [structure_marker]"
    by (cases ys) auto
  with ys show "scan p = [protein_marker, structure_marker]" by simp
next
  assume "scan p = [protein_marker, structure_marker]"
  then show "wellformed p"
    by (simp add: wellformed_def count_sub_protein count_sub_structure in_order_scan
        markers_distinct markers_distinct[symmetric])
qed

lemma odds_nth: "length xs = 5 \<Longrightarrow> odds xs = [xs ! 1, xs ! 3]"
  by (auto simp: length_Suc_conv eval_nat_numeral)

lemma prompt_ok_scan: "prompt_ok p \<longleftrightarrow> scan p = [protein_marker, structure_marker]"
proof -
  have len: "length (re_split p) = 2 * length (scan p) + 1"
    and od: "odds (re_split p) = scan p"
    by (simp_all add: re_split_def length_re_split_aux odds_re_split_aux)
  show ?thesis
  proof
    assume "prompt_ok p"
    then have "length (re_split p) = 5" "re_split p ! 1 = protein_marker"
      "re_split p ! 3 = structure_marker"
      by (simp_all add: prompt_ok_def Let_def)
    with odds_nth[of "re_split p"] od show "scan p = [protein_marker, structure_marker]"
      by simp
  next
    assume sc: "scan p = [protein_marker, structure_marker]"
    with len have l5: "length (re_split p) = 5" by simp
    from odds_nth[OF l5] od sc show "prompt_ok p"
      by (simp add: prompt_ok_def Let_def l5)
  qed
qed

lemma prompt_ok_wellformed: "prompt_ok p \<longleftrightarrow> wellformed p"
  by (simp add: prompt_ok_scan wellformed_scan)

lemma prompt_ok_decomp:
  assumes "prompt_ok p"
  shows "p = re_split p ! 0 @ protein_marker @ re_split p ! 2 @ structure_marker @ re_split p ! 4"
proof -
  from assms have l5: "length (re_split p) = 5" and m1: "re_split p ! 1 = protein_marker"
    and m3: "re_split p ! 3 = structure_marker"
    by (simp_all add: prompt_ok_def Let_def)
  from l5 obtain a b c d e where sp: "re_split p = [a, b, c, d, e]"
    by (auto simp: length_Suc_conv eval_nat_numeral)
  have "concat (re_split p) = p"
    by (simp add: re_split_def concat_re_split_aux)
  with sp m1 m3 show ?thesis by simp
qed


section \<open>Tensors, the tokenizer call and the loop over the prompts\<close>

lemma cat_dim1_InrD:
  assumes "cat_dim1 ts = Inr r"
  shows "ts \<noteq> []" and "\<forall>u\<in>set ts. length u = length r"
    and "\<forall>i<length r. r ! i = concat (map (\<lambda>u. u ! i) ts)"
  using assms
  by (auto simp: cat_dim1_def list_all_iff split: list.splits if_splits)

lemma cat_dim1_InrI:
  assumes "ts \<noteq> []" and "\<forall>u\<in>set ts. length u = n"
  shows "cat_dim1 ts = Inr (map (\<lambda>i. concat (map (\<lambda>u. u ! i) ts)) [0..<n])"
  using assms
  by (auto simp: cat_dim1_def list_all_iff split: list.splits)

lemma cat_dim1_error: "cat_dim1 ts = Inl e \<Longrightarrow> e = ShapeError"
  by (auto simp: cat_dim1_def split: list.splits if_splits)

lemma length_le_longest_aux: "(n::nat) \<le> fold max ns n"
proof (induction ns arbitrary: n)
  case Nil
  show ?case by simp
next
  case (Cons a ns)
  have "n \<le> max a n" by simp
  also have "\<dots> \<le> fold max ns (max a n)" by (rule Cons.IH)
  finally show ?case by simp
qed

lemma le_fold_max: "n \<in> set ns \<Longrightarrow> n \<le> fold max ns (k::nat)"
proof (induction ns arbitrary: k)
  case Nil
  then show ?case by simp
next
  case (Cons a ns)
  show ?case
  proof (cases "n = a")
    case True
    have "a \<le> max a k" by simp
    also have "\<dots> \<le> fold max ns (max a k)" by (rule length_le_longest_aux)
    finally show ?thesis using True by simp
  next
    case False
    with Cons show ?thesis by simp
  qed
qed

lemma length_le_longest: "r \<in> set rows \<Longrightarrow> length r \<le> longest rows"
  unfolding longest_def by (rule le_fold_max) simp

lemma length_pad_row: "length r \<le> n \<Longrightarrow> length (pad_row sd n x r) = n"
  by (simp add: pad_row_def split: side.splits)

lemma rectangularI: "(\<And>r. r \<in> set t \<Longrightarrow> length r = n) \<Longrightarrow> rectangular t"
  by (cases t) (auto simp: rectangular_def dim1_def list_all_iff)

lemma rectangularD: "rectangular t \<Longrightarrow> r \<in> set t \<Longrightarrow> length r = dim1 t"
  by (simp add: rectangular_def list_all_iff)

lemma rectangular_padded: "rectangular (map (pad_row sd (longest rows) x) rows)"
  by (rule rectangularI[where n = "longest rows"]) (auto simp: length_pad_row length_le_longest)

lemma llama_tokenizer_error: "llama_tokenizer m sd texts sp pd ml = Inl e \<Longrightarrow> e = TensorError"
  by (auto simp: llama_tokenizer_def Let_def split: if_splits)

lemma llama_tokenizer_shapes:
  assumes "llama_tokenizer m sd texts sp pd ml = Inr (ids, atts)"
  shows "texts \<noteq> []" and "length ids = length texts" and "length atts = length texts"
    and "map length atts = map length ids" and "rectangular ids"
  using assms
  by (auto simp: llama_tokenizer_def Let_def pad_row_def split: if_splits side.splits option.splits)

lemma llama_tokenizer_plain:
  "llama_tokenizer m sd texts sp False None =
     (if texts \<noteq> [] \<and> rectangular (map (llama_encode m sp) texts)
      then Inr (map (llama_encode m sp) texts,
                map (\<lambda>t. replicate (length (llama_encode m sp t)) 1) texts)
      else Inl TensorError)"
  by (simp add: llama_tokenizer_def Let_def comp_def)

lemma llama_tokenizer_padded:
  "llama_tokenizer m sd texts sp True ml =
     (let rows = (case ml of None \<Rightarrow> map (llama_encode m sp) texts
                  | Some n \<Rightarrow> if n = 0 then map (llama_encode m sp) texts
                             else map (take n) (map (llama_encode m sp) texts))
      in if texts \<noteq> []
         then Inr (map (pad_row sd (longest rows) (pad_token_id m)) rows,
                   map (\<lambda>r. pad_row sd (longest rows) 0 (replicate (length r) 1)) rows)
         else Inl TensorError)"
  by (simp add: llama_tokenizer_def Let_def comp_def rectangular_padded)

lemma split_prompts_ok:
  "list_all prompt_ok ps \<Longrightarrow>
   split_prompts ps = Inr (map (\<lambda>p. re_split p ! 0) ps, map (\<lambda>p. re_split p ! 2) ps,
                           map (\<lambda>p. re_split p ! 4) ps)"
  by (induction ps) auto

lemma split_prompts_bad: "\<not> list_all prompt_ok ps \<Longrightarrow> split_prompts ps = Inl FormatError"
  by (induction ps) (auto split: sum.splits)

lemma prompt_list_wrap_format_error:
  "prompt_list_wrap m sd img_embeds atts_img str_embeds atts_str ps = Inl FormatError
   \<longleftrightarrow> \<not> list_all prompt_ok ps"
proof (cases "list_all prompt_ok ps")
  case True
  show ?thesis
    using True split_prompts_ok[OF True]
    by (auto simp: prompt_list_wrap_def embed_tokens_call_def split: sum.splits if_splits
        dest!: cat_dim1_error llama_tokenizer_error)
next
  case False
  then have "ps \<noteq> []" by auto
  with False split_prompts_bad[OF False] show ?thesis
    by (simp add: prompt_list_wrap_def)
qed


lemma dtype_of_Int64:
  assumes "\<forall>r\<in>set t. length r = n" and "0 < n"
  shows "dtype_of t = Int64"
proof (cases t)
  case Nil
  then show ?thesis by (simp add: dtype_of_def)
next
  case (Cons r rs)
  with assms have "r \<noteq> []" by auto
  with Cons show ?thesis by (simp add: dtype_of_def)
qed

lemma cat_dim1_rows:
  assumes "ts \<noteq> []" and "\<forall>u\<in>set ts. length u = n"
  shows "\<exists>r. cat_dim1 ts = Inr r \<and> length r = n \<and> (\<forall>i<n. r ! i = concat (map (\<lambda>u. u ! i) ts))"
  using cat_dim1_InrI[OF assms] by simp

lemma prompt_list_wrap_prompts:
  assumes ne: "ps \<noteq> []" and ok: "list_all prompt_ok ps"
    and n1: "\<forall>p\<in>set ps. length (prefix_ids m p) = n_before"
    and n2: "\<forall>p\<in>set ps. length (middle_ids m p) = n_between"
    and b1: "length img_embeds = length ps" and b2: "length atts_img = length ps"
    and b3: "length str_embeds = length ps" and b4: "length atts_str = length ps"
    and p1: "0 < n_before" and p2: "0 < n_between" and p3: "0 < suffix_len m ps"
    and nq: "\<not> breakpoint_quits m"
  shows "\<exists>we wa.
      prompt_list_wrap m sd img_embeds atts_img str_embeds atts_str ps = Inr (we, wa)
    \<and> length we = length ps \<and> length wa = length ps
    \<and> (\<forall>i<length ps.
          we ! i = map (embed_tokens m) (prefix_ids m (ps ! i)) @ img_embeds ! i
                   @ map (embed_tokens m) (middle_ids m (ps ! i)) @ str_embeds ! i
                   @ map (embed_tokens m) (suffix_ids m sd ps (ps ! i))
        \<and> wa ! i = replicate n_before 1 @ atts_img ! i @ replicate n_between 1 @ atts_str ! i
                   @ suffix_mask m sd ps (ps ! i))"
proof -
  let ?bs = "map (\<lambda>p. re_split p ! 0) ps"
  let ?ms = "map (\<lambda>p. re_split p ! 2) ps"
  let ?as = "map (\<lambda>p. re_split p ! 4) ps"
  let ?bi = "map (llama_encode m False) ?bs" and ?bm = "map (\<lambda>t. replicate (length (llama_encode m False t)) (1::int)) ?bs"
  let ?mi = "map (llama_encode m False) ?ms" and ?mm = "map (\<lambda>t. replicate (length (llama_encode m False t)) (1::int)) ?ms"
  let ?rows = "map (llama_encode m True) ?as"
  let ?ai = "map (pad_row sd (longest ?rows) (pad_token_id m)) ?rows"
  let ?am = "map (\<lambda>r. pad_row sd (longest ?rows) (0::int) (replicate (length r) 1)) ?rows"
  have sp: "split_prompts ps = Inr (?bs, ?ms, ?as)"
    by (rule split_prompts_ok[OF ok])
  have "rectangular ?bi"
    by (rule rectangularI[where n = n_before]) (use n1 in \<open>auto simp: prefix_ids_def\<close>)
  then have t1: "llama_tokenizer m sd ?bs False False None = Inr (?bi, ?bm)"
    using ne by (simp add: llama_tokenizer_plain)
  have "rectangular ?mi"
    by (rule rectangularI[where n = n_between]) (use n2 in \<open>auto simp: middle_ids_def\<close>)
  then have t2: "llama_tokenizer m sd ?ms False False None = Inr (?mi, ?mm)"
    using ne by (simp add: llama_tokenizer_plain)
  have t3: "llama_tokenizer m sd ?as True True None = Inr (?ai, ?am)"
    using ne by (simp add: llama_tokenizer_padded Let_def)
  have d1: "dtype_of ?bi = Int64"
    by (rule dtype_of_Int64[OF _ p1]) (use n1 in \<open>auto simp: prefix_ids_def\<close>)
  have d2: "dtype_of ?mi = Int64"
    by (rule dtype_of_Int64[OF _ p2]) (use n2 in \<open>auto simp: middle_ids_def\<close>)
  have d3: "dtype_of ?ai = Int64"
  proof (rule dtype_of_Int64)
    show "\<forall>r\<in>set ?ai. length r = longest ?rows"
      by (auto simp: length_pad_row length_le_longest)
    show "0 < longest ?rows"
      using p3 by (simp add: suffix_len_def comp_def)
  qed
  let ?es = "[embed_ids m ?bi, img_embeds, embed_ids m ?mi, str_embeds, embed_ids m ?ai]"
  let ?ks = "[?bm, atts_img, ?mm, atts_str, ?am]"
  have "\<forall>u\<in>set ?es. length u = length ps"
    using b1 b3 by (simp add: embed_ids_def)
  from cat_dim1_rows[OF _ this] obtain we where
    we: "cat_dim1 ?es = Inr we" "length we = length ps"
        "\<forall>i<length ps. we ! i = concat (map (\<lambda>u. u ! i) ?es)"
    by auto
  have "\<forall>u\<in>set ?ks. length u = length ps"
    using b2 b4 by simp
  from cat_dim1_rows[OF _ this] obtain wa where
    wa: "cat_dim1 ?ks = Inr wa" "length wa = length ps"
        "\<forall>i<length ps. wa ! i = concat (map (\<lambda>u. u ! i) ?ks)"
    by auto
  have res: "prompt_list_wrap m sd img_embeds atts_img str_embeds atts_str ps = Inr (we, wa)"
    using ne sp t1 t2 t3 d1 d2 d3 nq we(1) wa(1)
    by (simp add: prompt_list_wrap_def embed_tokens_call_def)
  have rows: "we ! i = map (embed_tokens m) (prefix_ids m (ps ! i)) @ img_embeds ! i
                   @ map (embed_tokens m) (middle_ids m (ps ! i)) @ str_embeds ! i
                   @ map (embed_tokens m) (suffix_ids m sd ps (ps ! i))
        \<and> wa ! i = replicate n_before 1 @ atts_img ! i @ replicate n_between 1 @ atts_str ! i
                   @ suffix_mask m sd ps (ps ! i)" if "i < length ps" for i
  proof -
    from that have "ps ! i \<in> set ps" by simp
    with n1 n2 have "length (llama_encode m False (re_split (ps ! i) ! 0)) = n_before"
      "length (llama_encode m False (re_split (ps ! i) ! 2)) = n_between"
      by (auto simp: prefix_ids_def middle_ids_def)
    with we(3) wa(3) that show ?thesis
      by (simp add: embed_ids_def prefix_ids_def middle_ids_def suffix_ids_def suffix_mask_def
          suffix_len_def comp_def)
  qed
  from res we(2) wa(2) rows show ?thesis by blast
qed



section \<open>Blocks keep their shape\<close>

lemma block_okI: "map length a = map length b \<Longrightarrow> block_ok (a, b)"
  by (simp add: block_ok_def)

lemma block_ok_length: "block_ok (a, b) \<Longrightarrow> length a = length b"
  unfolding block_ok_def by (metis fst_conv snd_conv length_map)

lemma block_ok_nth: "block_ok (a, b) \<Longrightarrow> i < length a \<Longrightarrow> length (a ! i) = length (b ! i)"
  unfolding block_ok_def
  by (metis fst_conv snd_conv length_map nth_map)

lemma rectangular_shape: "rectangular a \<Longrightarrow> map length b = map length a \<Longrightarrow> rectangular b"
proof (rule rectangularI[where n = "dim1 a"])
  fix r assume a: "rectangular a" and eq: "map length b = map length a" and r: "r \<in> set b"
  from r obtain i where i: "i < length b" "r = b ! i" by (auto simp: in_set_conv_nth)
  from eq have len: "length a = length b" by (metis length_map)
  from eq i len have "length (b ! i) = length (a ! i)" by (metis nth_map)
  moreover from a i len have "length (a ! i) = dim1 a" by (simp add: rectangularD)
  ultimately show "length r = dim1 a" using i by simp
qed

lemma encode_protein_block: "block_ok (encode_protein m seqs)"
  by (simp add: encode_protein_def block_ok_def Let_def comp_def)

lemma encode_protein_fst: "fst (encode_protein m seqs) = map (map (glm_llama_proj m)) (protein_output m seqs)"
  by (simp add: encode_protein_def protein_output_def Let_def)

lemma encode_str_block:
  assumes "str_encoder_shape_ok m (c, f, pm)"
  shows "block_ok (encode_str m (c, f, pm))"
proof -
  let ?out = "str_encoder m c f (map (map Not) pm)"
  from assms have b: "out_batch ?out = length pm" and l: "\<forall>r\<in>set pm. length r = out_len ?out"
    by (simp_all add: str_encoder_shape_ok_def Let_def list_all_iff)
  have "map length (permute_batch_first ?out) = replicate (length pm) (out_len ?out)"
    by (simp add: permute_batch_first_def comp_def b map_replicate_const)
  moreover have "map length pm = replicate (length pm) (out_len ?out)"
    using l by (simp add: map_replicate_const[symmetric])
  ultimately show ?thesis
    by (simp add: encode_str_def block_ok_def Let_def comp_def)
qed

lemma sum_list_nth_cong:
  assumes "length es = length ks" and "\<And>j. j < length es \<Longrightarrow> f (es ! j) = g (ks ! j)"
  shows "map f es = map g ks"
  using assms by (auto intro: nth_equalityI)

lemma cat_dim1_block:
  assumes e: "cat_dim1 es = Inr we" and k: "cat_dim1 ks = Inr wa"
    and len: "length es = length ks"
    and blk: "\<And>j. j < length es \<Longrightarrow> block_ok (es ! j, ks ! j)"
  shows "block_ok (we, wa)"
proof (rule block_okI, rule nth_equalityI)
  from cat_dim1_InrD[OF e] have e1: "es \<noteq> []" and e2: "\<forall>u\<in>set es. length u = length we"
    and e3: "\<forall>i<length we. we ! i = concat (map (\<lambda>u. u ! i) es)" by auto
  from cat_dim1_InrD[OF k] have k1: "ks \<noteq> []" and k2: "\<forall>u\<in>set ks. length u = length wa"
    and k3: "\<forall>i<length wa. wa ! i = concat (map (\<lambda>u. u ! i) ks)" by auto
  from e1 have "0 < length es" by simp
  from blk[OF this] have "length (es ! 0) = length (ks ! 0)" by (rule block_ok_length)
  moreover from e1 e2 have "length (es ! 0) = length we" by simp
  moreover from k1 k2 have "length (ks ! 0) = length wa" by simp
  ultimately have lw: "length we = length wa" by simp
  then show "length (map length we) = length (map length wa)" by simp
  fix i assume "i < length (map length we)"
  then have i: "i < length we" by simp
  have "map (\<lambda>u. length (u ! i)) es = map (\<lambda>u. length (u ! i)) ks"
  proof (rule sum_list_nth_cong[OF len])
    fix j assume j: "j < length es"
    with e2 i have "i < length (es ! j)" by simp
    with blk[OF j] show "length (es ! j ! i) = length (ks ! j ! i)" by (rule block_ok_nth)
  qed
  then have "length (concat (map (\<lambda>u. u ! i) es)) = length (concat (map (\<lambda>u. u ! i) ks))"
    by (simp add: length_concat comp_def)
  with e3 k3 i lw show "map length we ! i = map length wa ! i" by simp
qed

lemma cat_dim1_rectangular:
  assumes e: "cat_dim1 ts = Inr r" and rect: "\<forall>t\<in>set ts. rectangular t"
  shows "rectangular r"
proof (rule rectangularI[where n = "sum_list (map dim1 ts)"])
  fix row assume "row \<in> set r"
  then obtain i where i: "i < length r" "row = r ! i" by (auto simp: in_set_conv_nth)
  from cat_dim1_InrD[OF e] have e2: "\<forall>u\<in>set ts. length u = length r"
    and e3: "\<forall>i<length r. r ! i = concat (map (\<lambda>u. u ! i) ts)" by auto
  have eq: "map (\<lambda>u. length (u ! i)) ts = map dim1 ts"
  proof (rule map_cong[OF refl])
    fix u assume u: "u \<in> set ts"
    with e2 i have "u ! i \<in> set u" by simp
    with rect u show "length (u ! i) = dim1 u" by (simp add: rectangularD)
  qed
  have "length (concat (map (\<lambda>u. u ! i) ts)) = sum_list (map (\<lambda>u. length (u ! i)) ts)"
    by (simp add: length_concat comp_def)
  also note eq
  finally show "length row = sum_list (map dim1 ts)"
    using e3 i by simp
qed


lemma embed_block: "block_ok (ids, atts) \<Longrightarrow> block_ok (embed_ids m ids, atts)"
  by (simp add: block_ok_def embed_ids_def comp_def)

lemma llama_tokenizer_block:
  "llama_tokenizer m sd texts sp pd ml = Inr (ids, atts) \<Longrightarrow> block_ok (embed_ids m ids, atts)"
  by (rule embed_block) (simp add: block_ok_def llama_tokenizer_shapes(4))

lemma llama_tokenizer_mask_rectangular:
  "llama_tokenizer m sd texts sp pd ml = Inr (ids, atts) \<Longrightarrow> rectangular atts"
  by (rule rectangular_shape[of ids]) (simp_all add: llama_tokenizer_shapes)

lemma prompt_list_wrap_cases:
  assumes "prompt_list_wrap m sd img_embeds atts_img str_embeds atts_str ps = Inr (we, wa)"
  obtains (no_prompt) "ps = []" "cat_dim1 [img_embeds, str_embeds] = Inr we"
      "cat_dim1 [atts_img, atts_str] = Inr wa"
  | (prompts) bi bm ti tm ai am where "ps \<noteq> []" "list_all prompt_ok ps"
      "llama_tokenizer m sd (map (\<lambda>p. re_split p ! 0) ps) False False None = Inr (bi, bm)"
      "llama_tokenizer m sd (map (\<lambda>p. re_split p ! 2) ps) False False None = Inr (ti, tm)"
      "llama_tokenizer m sd (map (\<lambda>p. re_split p ! 4) ps) True True None = Inr (ai, am)"
      "cat_dim1 [embed_ids m bi, img_embeds, embed_ids m ti, str_embeds, embed_ids m ai] = Inr we"
      "cat_dim1 [bm, atts_img, tm, atts_str, am] = Inr wa"
proof (cases "ps = []")
  case True
  with assms have "cat_dim1 [img_embeds, str_embeds] = Inr we"
    "cat_dim1 [atts_img, atts_str] = Inr wa"
    by (auto simp: prompt_list_wrap_def split: sum.splits)
  with True show ?thesis by (rule no_prompt)
next
  case False
  have ok: "list_all prompt_ok ps"
  proof (rule ccontr)
    assume "\<not> list_all prompt_ok ps"
    from split_prompts_bad[OF this] assms False show False
      by (simp add: prompt_list_wrap_def)
  qed
  from assms False split_prompts_ok[OF ok] obtain bi bm ti tm ai am where
    "llama_tokenizer m sd (map (\<lambda>p. re_split p ! 0) ps) False False None = Inr (bi, bm)"
    "llama_tokenizer m sd (map (\<lambda>p. re_split p ! 2) ps) False False None = Inr (ti, tm)"
    "llama_tokenizer m sd (map (\<lambda>p. re_split p ! 4) ps) True True None = Inr (ai, am)"
    "cat_dim1 [embed_ids m bi, img_embeds, embed_ids m ti, str_embeds, embed_ids m ai] = Inr we"
    "cat_dim1 [bm, atts_img, tm, atts_str, am] = Inr wa"
    by (auto simp: prompt_list_wrap_def embed_tokens_call_def split: sum.splits if_splits)
  then show ?thesis by (rule prompts[OF False ok])
qed

lemma prompt_list_wrap_block:
  assumes res: "prompt_list_wrap m sd img_embeds atts_img str_embeds atts_str ps = Inr (we, wa)"
    and b1: "block_ok (img_embeds, atts_img)" and b2: "block_ok (str_embeds, atts_str)"
  shows "block_ok (we, wa)"
  using res
proof (cases rule: prompt_list_wrap_cases)
  case no_prompt
  show ?thesis
  proof (rule cat_dim1_block[OF no_prompt(2,3)])
    fix j assume "j < length [img_embeds, str_embeds]"
    then have "j = 0 \<or> j = 1" by auto
    with b1 b2 show "block_ok ([img_embeds, str_embeds] ! j, [atts_img, atts_str] ! j)"
      by auto
  qed simp
next
  case (prompts bi bm ti tm ai am)
  note t = llama_tokenizer_block[OF prompts(3)] llama_tokenizer_block[OF prompts(4)]
    llama_tokenizer_block[OF prompts(5)]
  show ?thesis
  proof (rule cat_dim1_block[OF prompts(6,7)])
    fix j assume "j < length [embed_ids m bi, img_embeds, embed_ids m ti, str_embeds, embed_ids m ai]"
    then have "j = 0 \<or> j = 1 \<or> j = 2 \<or> j = 3 \<or> j = 4" by auto
    with b1 b2 t
    show "block_ok ([embed_ids m bi, img_embeds, embed_ids m ti, str_embeds, embed_ids m ai] ! j,
                    [bm, atts_img, tm, atts_str, am] ! j)"
      by auto
  qed simp
qed

lemma prompt_list_wrap_rectangular:
  assumes res: "prompt_list_wrap m sd img_embeds atts_img str_embeds atts_str ps = Inr (we, wa)"
    and r1: "rectangular atts_img" and r2: "rectangular atts_str"
  shows "rectangular wa"
  using res
proof (cases rule: prompt_list_wrap_cases)
  case no_prompt
  from no_prompt(3) show ?thesis
    by (rule cat_dim1_rectangular) (use r1 r2 in simp)
next
  case (prompts bi bm ti tm ai am)
  note t = llama_tokenizer_mask_rectangular[OF prompts(3)]
    llama_tokenizer_mask_rectangular[OF prompts(4)]
    llama_tokenizer_mask_rectangular[OF prompts(5)]
  from prompts(7) show ?thesis
    by (rule cat_dim1_rectangular) (use r1 r2 t in simp)
qed

lemma np_concatenate_rectangular: "np_concatenate arrays = Inr rows \<Longrightarrow> rectangular rows"
  by (auto simp: np_concatenate_def Let_def split: if_splits)

lemma reconstruct_protein_mask:
  "reconstruct_protein m seqs = Inr (c, f, pm) \<Longrightarrow> rectangular pm"
  by (auto simp: reconstruct_protein_def Let_def split: if_splits sum.splits
      dest: np_concatenate_rectangular)

lemma rectangular_map_map: "rectangular t \<Longrightarrow> rectangular (map (map g) t)"
  by (rule rectangular_shape[of t]) (simp_all add: comp_def)

lemma encode_str_snd: "snd (encode_str m (c, f, pm)) = map (map (\<lambda>b. if b then 1 else 0)) pm"
  by (simp add: encode_str_def Let_def)

lemma encode_protein_mask_rectangular:
  assumes "rectangular (protein_output m seqs)"
  shows "rectangular (snd (encode_protein m seqs))"
proof (rule rectangular_shape[OF assms])
  show "map length (snd (encode_protein m seqs)) = map length (protein_output m seqs)"
    by (simp add: encode_protein_def protein_output_def Let_def comp_def)
qed

lemma forward_fused_block:
  assumes res: "forward_fused m sd x = Inr (img, atts)" and ok: "encoders_ok m (seq x)"
  shows "block_ok (img, atts)" and "rectangular atts"
proof -
  from res obtain c f pm where rec: "reconstruct_protein m (seq x) = Inr (c, f, pm)"
    by (auto simp: forward_fused_def split: sum.splits)
  obtain se sa where es: "encode_str m (c, f, pm) = (se, sa)" by (cases "encode_str m (c, f, pm)")
  obtain pe pa where ep: "encode_protein m (seq x) = (pe, pa)"
    by (cases "encode_protein m (seq x)")
  from res rec es ep have plw: "prompt_list_wrap m sd pe pa se sa (prompt x) = Inr (img, atts)"
    by (simp add: forward_fused_def)
  from ok rec have shape: "str_encoder_shape_ok m (c, f, pm)"
    and prect: "rectangular (protein_output m (seq x))"
    by (simp_all add: encoders_ok_def)
  from encode_str_block[OF shape] es have b2: "block_ok (se, sa)" by simp
  from encode_protein_block[of m "seq x"] ep have b1: "block_ok (pe, pa)" by simp
  from plw b1 b2 show "block_ok (img, atts)" by (rule prompt_list_wrap_block)
  from encode_protein_mask_rectangular[OF prect] ep have r1: "rectangular pa" by simp
  from reconstruct_protein_mask[OF rec] encode_str_snd[of m c f pm] es
  have r2: "rectangular sa" by (simp add: rectangular_map_map)
  from plw r1 r2 show "rectangular atts" by (rule prompt_list_wrap_rectangular)
qed


section \<open>Prompt assembly\<close>

text \<open>
  Claim C2. A prompt list that contains a malformed prompt (one whose split is not five
  segments with \<^verbatim>\<open><proteinHere>\<close> second and \<^verbatim>\<open><structureHere>\<close> fourth, which is
  the same as not containing exactly one of each placeholder in that order) makes
  \<^verbatim>\<open>prompt_list_wrap\<close> raise the format error of line 234, whatever the other arguments
  are, and no other prompt list does: for a list of well-formed prompts, and for the empty
  list, the format error is never the result.
\<close>

theorem prompt_list_wrap_format_error_iff:
  "(prompt_list_wrap m sd img_embeds atts_img str_embeds atts_str ps = Inl FormatError
      \<longleftrightarrow> (\<exists>p\<in>set ps. \<not> prompt_ok p))
   \<and> (prompt_list_wrap m sd img_embeds atts_img str_embeds atts_str ps = Inl FormatError
      \<longleftrightarrow> (\<exists>p\<in>set ps. \<not> wellformed p))"
  by (simp add: prompt_list_wrap_format_error list_all_iff prompt_ok_wellformed)

theorem prompt_list_wrap_format_error_witness:
  "prompt_list_wrap toy PadRight [[5], [6]] [[1], [1]] [[7], [8]] [[1], [1]]
     [''x<proteinHere>y<structureHere>z'', ''x<structureHere>y<proteinHere>z'']
     = Inl FormatError
   \<and> prompt_list_wrap toy PadRight [[5]] [[1]] [[7]] [[1]] [''x<proteinHere>y<structureHere>z'']
     \<noteq> Inl FormatError"
proof -
  have bad: "\<not> prompt_ok ''x<structureHere>y<proteinHere>z''"
    by code_simp
  have good: "prompt_ok ''x<proteinHere>y<structureHere>z''"
    by code_simp
  have "\<exists>p\<in>set [''x<proteinHere>y<structureHere>z'', ''x<structureHere>y<proteinHere>z''].
          \<not> prompt_ok p"
    using bad by simp
  moreover have "\<not> (\<exists>p\<in>set [''x<proteinHere>y<structureHere>z'']. \<not> prompt_ok p)"
    using good by simp
  ultimately show ?thesis
    using prompt_list_wrap_format_error_iff[of toy PadRight "[[5], [6]]" "[[1], [1]]"
        "[[7], [8]]" "[[1], [1]]"
        "[''x<proteinHere>y<structureHere>z'', ''x<structureHere>y<proteinHere>z'']"]
      prompt_list_wrap_format_error_iff[of toy PadRight "[[5]]" "[[1]]" "[[7]]" "[[1]]"
        "[''x<proteinHere>y<structureHere>z'']"]
    by blast
qed

text \<open>
  Claim C1, as stated, fails: two well-formed prompts whose texts before the sequence
  placeholder have one and two tokens cannot be stacked into a tensor, since the prefix and
  the middle are tokenized with no padding, and the call raises.
\<close>

theorem prompt_list_wrap_ragged_prefix_raises:
  "list_all wellformed [''a<proteinHere>b<structureHere>c'', ''aa<proteinHere>b<structureHere>c'']
   \<and> prompt_list_wrap toy PadRight [[1], [2]] [[1], [1]] [[3], [4]] [[1], [1]]
       [''a<proteinHere>b<structureHere>c'', ''aa<proteinHere>b<structureHere>c'']
     = Inl TensorError"
  by code_simp

text \<open>
  Two more ways in which a well-formed prompt makes the call raise: a prompt with no text
  before the sequence placeholder gives a tensor of no ids, which the embedding rejects; and
  the debugger entered at line 250 ends a run that it cannot stop.
\<close>

lemma prompt_list_wrap_empty_prefix_raises:
  "wellformed ''<proteinHere>b<structureHere>c''
   \<and> prompt_list_wrap toy PadRight [[1]] [[1]] [[3]] [[1]] [''<proteinHere>b<structureHere>c'']
     = Inl DtypeError"
  by code_simp

lemma prompt_list_wrap_debugger_quits:
  "prompt_list_wrap (toy\<lparr>breakpoint_quits := True\<rparr>) PadRight [[1]] [[1]] [[3]] [[1]]
     [''a<proteinHere>b<structureHere>c''] = Inl BdbQuit"
  by code_simp

text \<open>
  Claim C1, amended. Take a non-empty list of well-formed prompts (each contains exactly one
  \<^verbatim>\<open><proteinHere>\<close> and exactly one \<^verbatim>\<open><structureHere>\<close>, in that order) whose prefixes
  all have the same number \<open>n_before\<close> of tokens, at least one, whose middles all have the
  same number \<open>n_between\<close> of tokens, at least one, and of whose suffixes one has a token;
  take four input tensors with one row per prompt; and let the debugger of line 250 return.
  Then \<^verbatim>\<open>prompt_list_wrap\<close> returns. Row \<open>i\<close> of the returned embedding is the prefix
  embedding, the sequence block, the middle embedding, the structure block and the (padded)
  suffix embedding of prompt \<open>i\<close>, in that order; its length is the sum of the five lengths;
  the mask is put together in the same order; and the three texts are the parts of the
  prompt around the two placeholders. Nothing is said of a run that the debugger ends.
\<close>

theorem prompt_list_wrap_wellformed:
  assumes "ps \<noteq> []" and "list_all wellformed ps"
    and "\<forall>p\<in>set ps. length (prefix_ids m p) = n_before" and "0 < n_before"
    and "\<forall>p\<in>set ps. length (middle_ids m p) = n_between" and "0 < n_between"
    and "0 < suffix_len m ps"
    and "length img_embeds = length ps" and "length atts_img = length ps"
    and "length str_embeds = length ps" and "length atts_str = length ps"
    and "\<not> breakpoint_quits m"
  shows "\<exists>we wa.
      prompt_list_wrap m sd img_embeds atts_img str_embeds atts_str ps = Inr (we, wa)
    \<and> length we = length ps \<and> length wa = length ps
    \<and> (\<forall>i<length ps.
          we ! i = map (embed_tokens m) (prefix_ids m (ps ! i)) @ img_embeds ! i
                   @ map (embed_tokens m) (middle_ids m (ps ! i)) @ str_embeds ! i
                   @ map (embed_tokens m) (suffix_ids m sd ps (ps ! i))
        \<and> length (we ! i) = length (prefix_ids m (ps ! i)) + length (img_embeds ! i)
                   + length (middle_ids m (ps ! i)) + length (str_embeds ! i)
                   + length (suffix_ids m sd ps (ps ! i))
        \<and> wa ! i = replicate n_before 1 @ atts_img ! i @ replicate n_between 1 @ atts_str ! i
                   @ suffix_mask m sd ps (ps ! i)
        \<and> ps ! i = re_split (ps ! i) ! 0 @ protein_marker @ re_split (ps ! i) ! 2
                   @ structure_marker @ re_split (ps ! i) ! 4)"
proof -
  from assms(2) have ok: "list_all prompt_ok ps"
    by (simp add: list_all_iff prompt_ok_wellformed)
  from prompt_list_wrap_prompts[OF assms(1) ok assms(3) assms(5) assms(8-11) assms(4)
      assms(6) assms(7) assms(12), of sd]
  obtain we wa where
    res: "prompt_list_wrap m sd img_embeds atts_img str_embeds atts_str ps = Inr (we, wa)"
      "length we = length ps" "length wa = length ps"
    and rows: "\<forall>i<length ps.
          we ! i = map (embed_tokens m) (prefix_ids m (ps ! i)) @ img_embeds ! i
                   @ map (embed_tokens m) (middle_ids m (ps ! i)) @ str_embeds ! i
                   @ map (embed_tokens m) (suffix_ids m sd ps (ps ! i))
        \<and> wa ! i = replicate n_before 1 @ atts_img ! i @ replicate n_between 1 @ atts_str ! i
                   @ suffix_mask m sd ps (ps ! i)"
    by blast
  have dec: "ps ! i = re_split (ps ! i) ! 0 @ protein_marker @ re_split (ps ! i) ! 2
                   @ structure_marker @ re_split (ps ! i) ! 4" if "i < length ps" for i
  proof -
    from that ok have "prompt_ok (ps ! i)" by (simp add: list_all_length)
    then show ?thesis by (rule prompt_ok_decomp)
  qed
  from res rows dec show ?thesis by auto
qed

theorem prompt_list_wrap_wellformed_witness:
  "\<exists>we wa.
      prompt_list_wrap toy PadLeft [[1], [2]] [[1], [1]] [[3], [4]] [[0], [1]]
        [''a<proteinHere>b<structureHere>c'', ''a<proteinHere>b<structureHere>cd'']
        = Inr (we, wa)
    \<and> length we = 2
    \<and> we ! 0 = [197, 1, 198, 3, 102, 101, 199] \<and> we ! 1 = [197, 2, 198, 4, 101, 199, 200]
    \<and> length (we ! 1) = 1 + 1 + 1 + 1 + 3
    \<and> wa ! 0 = [1, 1, 1, 0, 0, 1, 1] \<and> wa ! 1 = [1, 1, 1, 1, 1, 1, 1]"
proof -
  let ?ps = "[''a<proteinHere>b<structureHere>c'', ''a<proteinHere>b<structureHere>cd'']"
  have h1: "?ps \<noteq> []" by simp
  have h2: "list_all wellformed ?ps" by code_simp
  have h3: "\<forall>p\<in>set ?ps. length (prefix_ids toy p) = 1" by code_simp
  have h4: "\<forall>p\<in>set ?ps. length (middle_ids toy p) = 1" by code_simp
  have h5: "0 < suffix_len toy ?ps" by code_simp
  have h6: "\<not> breakpoint_quits toy" by code_simp
  have e0: "map (embed_tokens toy) (prefix_ids toy (?ps ! 0)) @ [[1], [2]] ! 0
              @ map (embed_tokens toy) (middle_ids toy (?ps ! 0)) @ [[3], [4]] ! 0
              @ map (embed_tokens toy) (suffix_ids toy PadLeft ?ps (?ps ! 0))
            = [197, 1, 198, 3, 102, 101, 199]"
    by code_simp
  have e1: "map (embed_tokens toy) (prefix_ids toy (?ps ! 1)) @ [[1], [2]] ! 1
              @ map (embed_tokens toy) (middle_ids toy (?ps ! 1)) @ [[3], [4]] ! 1
              @ map (embed_tokens toy) (suffix_ids toy PadLeft ?ps (?ps ! 1))
            = [197, 2, 198, 4, 101, 199, 200]"
    by code_simp
  have a0: "replicate 1 1 @ [[1], [1]] ! 0 @ replicate 1 1 @ [[0], [1]] ! 0
              @ suffix_mask toy PadLeft ?ps (?ps ! 0) = [1, 1, 1, 0, 0, 1, (1::int)]"
    by code_simp
  have a1: "replicate 1 1 @ [[1], [1]] ! 1 @ replicate 1 1 @ [[0], [1]] ! 1
              @ suffix_mask toy PadLeft ?ps (?ps ! 1) = [1, 1, 1, 1, 1, 1, (1::int)]"
    by code_simp
  from prompt_list_wrap_wellformed[OF h1 h2 h3 _ h4 _ h5 _ _ _ _ h6,
      of "[[1], [2]]" "[[1], [1]]" "[[3], [4]]" "[[0], [1]]" PadLeft]
  obtain we wa where
    res: "prompt_list_wrap toy PadLeft [[1], [2]] [[1], [1]] [[3], [4]] [[0], [1]] ?ps
            = Inr (we, wa)" "length we = length ?ps"
    and rows: "\<forall>i<length ?ps.
          we ! i = map (embed_tokens toy) (prefix_ids toy (?ps ! i)) @ [[1], [2]] ! i
                   @ map (embed_tokens toy) (middle_ids toy (?ps ! i)) @ [[3], [4]] ! i
                   @ map (embed_tokens toy) (suffix_ids toy PadLeft ?ps (?ps ! i))
        \<and> wa ! i = replicate 1 1 @ [[1], [1]] ! i @ replicate 1 1 @ [[0], [1]] ! i
                   @ suffix_mask toy PadLeft ?ps (?ps ! i)"
    by auto
  from rows have r0: "we ! 0 = [197, 1, 198, 3, 102, 101, 199]"
    and r0a: "wa ! 0 = [1, 1, 1, 0, 0, 1, 1]"
    using e0 a0 by auto
  from rows have r1: "we ! 1 = [197, 2, 198, 4, 101, 199, 200]"
    and r1a: "wa ! 1 = [1, 1, 1, 1, 1, 1, 1]"
    using e1 a1 by auto
  from res r0 r0a r1 r1a show ?thesis by simp
qed

section \<open>The training step\<close>

lemma target_tokens_eq:
  "target_tokens m texts =
     (if texts \<noteq> []
      then Inr (map (\<lambda>t. pad_row PadRight (target_len m texts) (pad_token_id m) (target_row m t))
                  texts,
                map (\<lambda>t. pad_row PadRight (target_len m texts) 0
                             (replicate (length (target_row m t)) 1)) texts)
      else Inl TensorError)"
proof (cases "max_txt_len m = 0")
  case True
  then have rows: "map (\<lambda>t. llama_encode m False (t @ end_sym m)) texts
              = map (target_row m) texts"
    by (simp add: target_row_def)
  show ?thesis
    unfolding target_tokens_def llama_tokenizer_padded
    by (simp add: True rows Let_def target_len_def comp_def target_row_def)
next
  case False
  then have rows: "map (\<lambda>t. take (max_txt_len m) (llama_encode m False (t @ end_sym m))) texts
              = map (target_row m) texts"
    by (simp add: target_row_def)
  show ?thesis
    unfolding target_tokens_def llama_tokenizer_padded
    by (simp add: False rows Let_def target_len_def comp_def target_row_def)
qed

lemma target_tokens_rows:
  assumes "target_tokens m texts = Inr (ids, tmask)"
  shows "texts \<noteq> []" and "length ids = length texts" and "length tmask = length texts"
    and "\<And>b. b < length texts \<Longrightarrow>
          ids ! b = target_row m (texts ! b)
                    @ replicate (target_len m texts - length (target_row m (texts ! b))) (pad_token_id m)"
    and "\<And>b. b < length texts \<Longrightarrow>
          tmask ! b = replicate (length (target_row m (texts ! b))) 1
                    @ replicate (target_len m texts - length (target_row m (texts ! b))) 0"
  using assms
  by (auto simp: target_tokens_eq pad_row_def split: if_splits)

lemma cat_dim1_two:
  assumes "cat_dim1 [a, b] = Inr r"
  shows "length a = length r" and "length b = length r"
    and "\<And>i. i < length r \<Longrightarrow> r ! i = a ! i @ b ! i"
  using cat_dim1_InrD[OF assms] by auto

lemma cat_dim1_three:
  assumes "cat_dim1 [a, b, c] = Inr r"
  shows "length a = length r" and "length b = length r" and "length c = length r"
    and "\<And>i. i < length r \<Longrightarrow> r ! i = a ! i @ b ! i @ c ! i"
  using cat_dim1_InrD[OF assms] by auto

lemma lm_inputs_rows:
  assumes res: "lm_inputs m img atts texts = Inr c"
    and tok: "target_tokens m texts = Inr (ids, tmask)"
  shows "length img = length texts" and "length atts = length texts"
    and "length (labels c) = length texts" and "length (inputs_embeds c) = length texts"
    and "length (attention_mask c) = length texts"
    and "\<And>b. b < length texts \<Longrightarrow>
          labels c ! b = replicate (dim1 atts + 1) (- 100)
                         @ map (\<lambda>t. if t = pad_token_id m then - 100 else t) (ids ! b)"
    and "\<And>b. b < length texts \<Longrightarrow>
          inputs_embeds c ! b = embed_tokens m (bos_token_id m) # img ! b
                                @ map (embed_tokens m) (ids ! b)"
    and "\<And>b. b < length texts \<Longrightarrow>
          attention_mask c ! b = take 1 (atts ! b) @ atts ! b @ tmask ! b"
proof -
  let ?fill = "\<lambda>t. if t = pad_token_id m then - 100 else t"
  from res tok have
    l: "cat_dim1 [replicate (length atts) (replicate (dim1 atts + 1) (- 100)),
                  map (map ?fill) ids] = Inr (labels c)"
    and e: "cat_dim1 [embed_ids m (replicate (length img) [1 * bos_token_id m]), img,
                      embed_ids m ids] = Inr (inputs_embeds c)"
    and a: "cat_dim1 [map (take 1) atts, atts, tmask] = Inr (attention_mask c)"
    by (auto simp: lm_inputs_def embed_tokens_call_def Let_def split: sum.splits if_splits)
  note n = target_tokens_rows(2,3)[OF tok]
  from cat_dim1_two(1,2)[OF l] n show la: "length atts = length texts"
    and ll: "length (labels c) = length texts" by simp_all
  from cat_dim1_three(1,2,3)[OF e] n show li: "length img = length texts"
    and le: "length (inputs_embeds c) = length texts" by (simp_all add: embed_ids_def)
  from cat_dim1_three(1,2,3)[OF a] n show lk: "length (attention_mask c) = length texts"
    by simp
  show "labels c ! b = replicate (dim1 atts + 1) (- 100) @ map ?fill (ids ! b)"
    if "b < length texts" for b
    using cat_dim1_two(3)[OF l, of b] that ll la n by simp
  show "inputs_embeds c ! b = embed_tokens m (bos_token_id m) # img ! b
                                @ map (embed_tokens m) (ids ! b)"
    if "b < length texts" for b
    using cat_dim1_three(4)[OF e, of b] that le li n by (simp add: embed_ids_def)
  show "attention_mask c ! b = take 1 (atts ! b) @ atts ! b @ tmask ! b"
    if "b < length texts" for b
    using cat_dim1_three(4)[OF a, of b] that lk la n by simp
qed

lemma lm_inputs_tensors:
  assumes res: "lm_inputs m img atts texts = Inr c"
    and tok: "target_tokens m texts = Inr (ids, tmask)"
  shows "inputs_embeds c
           = map (\<lambda>b. embed_tokens m (bos_token_id m) # img ! b @ map (embed_tokens m) (ids ! b))
               [0..<length texts]"
    and "attention_mask c = map (\<lambda>b. take 1 (atts ! b) @ atts ! b @ tmask ! b) [0..<length texts]"
    and "labels c
           = map (\<lambda>b. replicate (dim1 atts + 1) (- 100)
                        @ map (\<lambda>t. if t = pad_token_id m then - 100 else t) (ids ! b))
               [0..<length texts]"
proof -
  note r = lm_inputs_rows[OF res tok]
  show "inputs_embeds c
           = map (\<lambda>b. embed_tokens m (bos_token_id m) # img ! b @ map (embed_tokens m) (ids ! b))
               [0..<length texts]"
    by (rule nth_equalityI) (simp_all add: r(4) r(7))
  show "attention_mask c = map (\<lambda>b. take 1 (atts ! b) @ atts ! b @ tmask ! b) [0..<length texts]"
    by (rule nth_equalityI) (simp_all add: r(5) r(8))
  show "labels c
           = map (\<lambda>b. replicate (dim1 atts + 1) (- 100)
                        @ map (\<lambda>t. if t = pad_token_id m then - 100 else t) (ids ! b))
               [0..<length texts]"
    by (rule nth_equalityI) (simp_all add: r(3) r(6))
qed

lemma forward_InrD:
  assumes "forward m sd x = (Inr loss, sd')"
  obtains c where "forward_call m sd x = (Inr c, sd')"
    "loss = llama_model m (inputs_embeds c) (attention_mask c) (labels c)"
  using assms by (auto simp: forward_def split: prod.splits sum.splits)

lemma toy_forward: "forward toy PadLeft toy_samples = (Inr 127, PadRight)"
  by code_simp

lemma forward_call_InrD:
  assumes "forward_call m sd x = (Inr c, sd')"
  obtains img atts ids tmask where "forward_fused m sd x = Inr (img, atts)"
    "target_tokens m (text_input x) = Inr (ids, tmask)"
    "lm_inputs m img atts (text_input x) = Inr c" "sd' = PadRight"
proof -
  from assms obtain img atts where f: "forward_fused m sd x = Inr (img, atts)"
    and l: "lm_inputs m img atts (text_input x) = Inr c" and s: "sd' = PadRight"
    by (auto simp: forward_call_def split: sum.splits)
  from l obtain ids tmask where t: "target_tokens m (text_input x) = Inr (ids, tmask)"
    by (auto simp: lm_inputs_def split: sum.splits)
  from f t l s show ?thesis by (rule that)
qed

lemma forward_call_lm_inputs:
  assumes "forward_call m sd x = (Inr c, sd')" and "forward_fused m sd x = Inr (img, atts)"
  shows "lm_inputs m img atts (text_input x) = Inr c" and "sd' = PadRight"
  using assms by (auto simp: forward_call_def)


lemma toy_forward_call: "forward_call toy PadLeft toy_samples = (Inr toy_call, PadRight)"
  by code_simp

lemma toy_forward_fused:
  "forward_fused toy PadLeft toy_samples = Inr (fst toy_fused, snd toy_fused)"
  by code_simp

lemma toy_target_tokens:
  "target_tokens toy (text_input toy_samples) = Inr (fst toy_targets, snd toy_targets)"
  by code_simp

lemma toy_encoders_ok: "encoders_ok toy (seq toy_samples)"
  by code_simp

lemma toy_protein_nonempty: "protein_nonempty toy (seq toy_samples)"
  by code_simp

lemma toy_bare_forward_call: "forward_call toy PadRight toy_bare = (Inr toy_bare_call, PadRight)"
  by code_simp

lemma toy_bare_forward_fused: "forward_fused toy PadRight toy_bare = Inr ([[21, 24]], [[0, 1]])"
  by code_simp

lemma rectangular_nth: "rectangular t \<Longrightarrow> b < length t \<Longrightarrow> length (t ! b) = dim1 t"
  by (simp add: rectangularD)

lemma prompt_list_wrap_contains_img:
  assumes res: "prompt_list_wrap m sd img_embeds atts_img str_embeds atts_str ps = Inr (we, wa)"
    and b: "b < length we"
  shows "b < length img_embeds \<and> length (img_embeds ! b) \<le> length (we ! b)"
  using res
proof (cases rule: prompt_list_wrap_cases)
  case no_prompt
  from cat_dim1_InrD[OF no_prompt(2)] b show ?thesis by auto
next
  case (prompts bi bm ti tm ai am)
  from cat_dim1_InrD[OF prompts(6)] b show ?thesis by auto
qed

lemma forward_fused_nonempty:
  assumes res: "forward_fused m sd x = Inr (img, atts)" and ne: "protein_nonempty m (seq x)"
    and b: "b < length img"
  shows "img ! b \<noteq> []"
proof -
  from res obtain st where rec: "reconstruct_protein m (seq x) = Inr st"
    by (auto simp: forward_fused_def split: sum.splits)
  obtain se sa where es: "encode_str m st = (se, sa)" by (cases "encode_str m st")
  obtain pe pa where ep: "encode_protein m (seq x) = (pe, pa)"
    by (cases "encode_protein m (seq x)")
  from res rec es ep have plw: "prompt_list_wrap m sd pe pa se sa (prompt x) = Inr (img, atts)"
    by (simp add: forward_fused_def)
  from prompt_list_wrap_contains_img[OF plw b]
  have bp: "b < length pe" and le: "length (pe ! b) \<le> length (img ! b)" by simp_all
  from ep encode_protein_fst[of m "seq x"]
  have pe: "pe = map (map (glm_llama_proj m)) (protein_output m (seq x))" by simp
  with bp have "protein_output m (seq x) ! b \<in> set (protein_output m (seq x))" by simp
  with ne have "protein_output m (seq x) ! b \<noteq> []"
    by (simp add: protein_nonempty_def list_all_iff)
  with pe bp have "pe ! b \<noteq> []" by simp
  with le show ?thesis by auto
qed


text \<open>
  Claim C3. In a run of \<^verbatim>\<open>forward\<close> that reaches the language model, position \<open>j\<close> of
  row \<open>b\<close> of the tokenized target texts is position \<open>atts_img.shape[1] + 1 + j\<close> of
  row \<open>b\<close> of the label tensor, and the label there is \<open>- 100\<close> when the token id is the
  pad token id and the token id itself otherwise.
\<close>

theorem forward_labels_mask_padding:
  assumes "forward_call m sd x = (Inr c, sd')"
    and "forward_fused m sd x = Inr (img, atts)"
    and "target_tokens m (text_input x) = Inr (ids, tmask)"
    and "b < length ids" and "j < length (ids ! b)"
  shows "labels c ! b ! (dim1 atts + 1 + j)
           = (if ids ! b ! j = pad_token_id m then - 100 else ids ! b ! j)"
proof -
  note l = forward_call_lm_inputs(1)[OF assms(1,2)]
  from assms(4) target_tokens_rows(2)[OF assms(3)] have b: "b < length (text_input x)" by simp
  from lm_inputs_rows(6)[OF l assms(3) b] assms(5) show ?thesis
    by (simp add: nth_append)
qed

theorem forward_labels_mask_padding_witness:
  "labels toy_call ! 1 ! 12 = - 100 \<and> fst toy_targets ! 1 ! 2 = pad_token_id toy
   \<and> labels toy_call ! 1 ! 10 = 97 \<and> fst toy_targets ! 1 ! 0 \<noteq> pad_token_id toy"
proof -
  have b: "1 < length (fst toy_targets)" and j2: "2 < length (fst toy_targets ! 1)"
    and j0: "0 < length (fst toy_targets ! 1)"
    by (simp_all add: toy_targets_def)
  have d: "dim1 (snd toy_fused) = 9" by code_simp
  have p2: "fst toy_targets ! 1 ! 2 = pad_token_id toy" by code_simp
  have v0: "fst toy_targets ! 1 ! 0 = 97" and p0: "fst toy_targets ! 1 ! 0 \<noteq> pad_token_id toy"
    by code_simp+
  from forward_labels_mask_padding[OF toy_forward_call toy_forward_fused toy_target_tokens b j2]
  have "labels toy_call ! 1 ! 12 = - 100" using d p2 by simp
  moreover
  from forward_labels_mask_padding[OF toy_forward_call toy_forward_fused toy_target_tokens b j0]
  have "labels toy_call ! 1 ! 10 = 97" using d p0 v0 by simp
  ultimately show ?thesis using p2 p0 by simp
qed

text \<open>
  Claim C4. The block of ignore labels put before the target labels has, in every row, the
  length of the fused prompt embedding plus one, so that the label of the BOS position and of
  every position of the fused prompt is \<open>- 100\<close>. The code takes the length from the fused
  attention mask; it is the length of the fused embedding because blocks keep their shape
  (\<open>encoders_ok\<close>: the encoders returned tensors of the shape of their inputs).
\<close>

theorem forward_ignore_prefix:
  assumes "forward_call m sd x = (Inr c, sd')"
    and "forward_fused m sd x = Inr (img, atts)"
    and "target_tokens m (text_input x) = Inr (ids, tmask)"
    and "encoders_ok m (seq x)"
    and "b < length img"
  shows "labels c ! b = replicate (length (img ! b) + 1) (- 100)
                        @ map (\<lambda>t. if t = pad_token_id m then - 100 else t) (ids ! b)
       \<and> take (length (img ! b) + 1) (labels c ! b) = replicate (length (img ! b) + 1) (- 100)
       \<and> (\<forall>j\<le>length (img ! b). labels c ! b ! j = - 100)"
proof -
  note l = forward_call_lm_inputs(1)[OF assms(1,2)]
  note blk = forward_fused_block[OF assms(2,4)]
  from assms(5) lm_inputs_rows(1,2)[OF l assms(3)]
  have b: "b < length (text_input x)" and ba: "b < length atts" by simp_all
  from block_ok_nth[OF blk(1) assms(5)] rectangular_nth[OF blk(2) ba]
  have d: "dim1 atts = length (img ! b)" by simp
  from lm_inputs_rows(6)[OF l assms(3) b] d
  have row: "labels c ! b = replicate (length (img ! b) + 1) (- 100)
                        @ map (\<lambda>t. if t = pad_token_id m then - 100 else t) (ids ! b)"
    by simp
  have "(replicate (n + 1) v @ ys) ! j = v" if "j \<le> n" for n j and v :: int and ys
    using that by (simp add: nth_append nth_Cons split: nat.splits)
  with row show ?thesis by simp
qed

theorem forward_ignore_prefix_witness:
  "take 10 (labels toy_call ! 0) = replicate 10 (- 100) \<and> length (fst toy_fused ! 0) = 9"
proof -
  have b: "0 < length (fst toy_fused)" by (simp add: toy_fused_def)
  have n: "length (fst toy_fused ! 0) = 9" by (simp add: toy_fused_def)
  from forward_ignore_prefix[OF toy_forward_call toy_forward_fused toy_target_tokens
      toy_encoders_ok b]
  have "take (length (fst toy_fused ! 0) + 1) (labels toy_call ! 0)
          = replicate (length (fst toy_fused ! 0) + 1) (- 100)"
    by blast
  with n show ?thesis by simp
qed

text \<open>
  Claim C7, as stated, fails in one configuration: with a maximal text length of 0 the
  tokenizer truncates nothing, and the targets reach the language model with all their ids.
\<close>

theorem forward_max_txt_len_zero_keeps_ids:
  "max_txt_len toy_unlimited = 0
   \<and> target_tokens toy_unlimited (text_input toy_samples)
       = Inr ([[104, 105, 10], [97, 10, 2]], [[1, 1, 1], [1, 1, 0]])
   \<and> max_txt_len toy_unlimited < length ([104, 105, 10] :: int list)
   \<and> forward toy_unlimited PadLeft toy_samples
       = (Inr (llama_model toy_unlimited (inputs_embeds toy_call) (attention_mask toy_call)
                 (labels toy_call)), PadRight)"
  by code_simp

text \<open>
  Claim C7, amended. In a run of \<^verbatim>\<open>forward\<close> that returns a loss, the loss is what the
  language model returns for these three tensors, with one row for every target text: the
  input embeddings, whose row \<open>b\<close> is the BOS embedding, the fused prompt embedding and the
  embedding of the target ids, in that order; the attention mask, whose row \<open>b\<close> is the first
  column of the fused mask, the fused mask and the mask of the targets, in the same order;
  and the labels. Row \<open>b\<close> of the target ids is the token ids of target text \<open>b\<close> followed
  by the end symbol, cut to its first \<open>max_txt_len\<close> ids when \<open>max_txt_len\<close> is positive
  (and not cut when it is 0), filled on the right with the pad token up to the longest row;
  the mask of the targets is 1 on the token ids and 0 on the filling. The padding side of
  the tokenizer is right afterwards.
\<close>

theorem forward_lm_input_layout:
  assumes "forward m sd x = (Inr loss, sd')"
    and "forward_fused m sd x = Inr (img, atts)"
    and "target_tokens m (text_input x) = Inr (ids, tmask)"
  shows "loss = llama_model m
           (map (\<lambda>b. embed_tokens m (bos_token_id m) # img ! b @ map (embed_tokens m) (ids ! b))
              [0..<length (text_input x)])
           (map (\<lambda>b. take 1 (atts ! b) @ atts ! b @ tmask ! b) [0..<length (text_input x)])
           (map (\<lambda>b. replicate (dim1 atts + 1) (- 100)
                       @ map (\<lambda>t. if t = pad_token_id m then - 100 else t) (ids ! b))
              [0..<length (text_input x)])
       \<and> sd' = PadRight
       \<and> length ids = length (text_input x) \<and> length tmask = length (text_input x)
       \<and> (\<forall>b<length (text_input x).
             ids ! b = target_row m (text_input x ! b)
                       @ replicate (target_len m (text_input x)
                                    - length (target_row m (text_input x ! b))) (pad_token_id m)
           \<and> tmask ! b = replicate (length (target_row m (text_input x ! b))) 1
                       @ replicate (target_len m (text_input x)
                                    - length (target_row m (text_input x ! b))) 0
           \<and> target_row m (text_input x ! b)
               = (if max_txt_len m = 0 then llama_encode m False (text_input x ! b @ end_sym m)
                  else take (max_txt_len m) (llama_encode m False (text_input x ! b @ end_sym m)))
           \<and> (0 < max_txt_len m \<longrightarrow> length (target_row m (text_input x ! b)) \<le> max_txt_len m)
           \<and> length (ids ! b) = target_len m (text_input x)
           \<and> length (tmask ! b) = target_len m (text_input x))"
proof -
  from assms(1) obtain c where c: "forward_call m sd x = (Inr c, sd')"
    and loss: "loss = llama_model m (inputs_embeds c) (attention_mask c) (labels c)"
    by (rule forward_InrD)
  note l = forward_call_lm_inputs[OF c assms(2)]
  note t = lm_inputs_tensors[OF l(1) assms(3)]
  have rows: "ids ! b = target_row m (text_input x ! b)
                       @ replicate (target_len m (text_input x)
                                    - length (target_row m (text_input x ! b))) (pad_token_id m)
           \<and> tmask ! b = replicate (length (target_row m (text_input x ! b))) 1
                       @ replicate (target_len m (text_input x)
                                    - length (target_row m (text_input x ! b))) 0
           \<and> target_row m (text_input x ! b)
               = (if max_txt_len m = 0 then llama_encode m False (text_input x ! b @ end_sym m)
                  else take (max_txt_len m) (llama_encode m False (text_input x ! b @ end_sym m)))
           \<and> (0 < max_txt_len m \<longrightarrow> length (target_row m (text_input x ! b)) \<le> max_txt_len m)
           \<and> length (ids ! b) = target_len m (text_input x)
           \<and> length (tmask ! b) = target_len m (text_input x)"
    if b: "b < length (text_input x)" for b
  proof -
    note r = target_tokens_rows(4,5)[OF assms(3) b]
    have "target_row m (text_input x ! b) \<in> set (map (target_row m) (text_input x))"
      using b by simp
    then have le: "length (target_row m (text_input x ! b)) \<le> target_len m (text_input x)"
      unfolding target_len_def by (rule length_le_longest)
    have d: "target_row m (text_input x ! b)
               = (if max_txt_len m = 0 then llama_encode m False (text_input x ! b @ end_sym m)
                  else take (max_txt_len m) (llama_encode m False (text_input x ! b @ end_sym m)))"
      by (simp add: target_row_def)
    have m: "0 < max_txt_len m \<longrightarrow> length (target_row m (text_input x ! b)) \<le> max_txt_len m"
      by (simp add: target_row_def)
    from r le have "length (ids ! b) = target_len m (text_input x)"
      "length (tmask ! b) = target_len m (text_input x)"
      by simp_all
    with r d m show ?thesis by blast
  qed
  have A: "loss = llama_model m
           (map (\<lambda>b. embed_tokens m (bos_token_id m) # img ! b @ map (embed_tokens m) (ids ! b))
              [0..<length (text_input x)])
           (map (\<lambda>b. take 1 (atts ! b) @ atts ! b @ tmask ! b) [0..<length (text_input x)])
           (map (\<lambda>b. replicate (dim1 atts + 1) (- 100)
                       @ map (\<lambda>t. if t = pad_token_id m then - 100 else t) (ids ! b))
              [0..<length (text_input x)])"
    unfolding loss t ..
  from A l(2) target_tokens_rows(2,3)[OF assms(3)] rows show ?thesis
    by blast
qed

theorem forward_lm_input_layout_witness:
  "llama_model toy (inputs_embeds toy_call) (attention_mask toy_call) (labels toy_call) = 127
   \<and> fst toy_targets ! 1 = [97, 10, 2] \<and> snd toy_targets ! 1 = [1, 1, 0]
   \<and> inputs_embeds toy_call ! 1 = 101 # fst toy_fused ! 1 @ [197, 110, 102]
   \<and> attention_mask toy_call ! 1 = [1] @ snd toy_fused ! 1 @ [1, 1, 0]"
proof -
  have b: "1 < length (text_input toy_samples)" by (simp add: toy_samples_def)
  have E: "map (\<lambda>b. embed_tokens toy (bos_token_id toy) # fst toy_fused ! b
                      @ map (embed_tokens toy) (fst toy_targets ! b))
             [0..<length (text_input toy_samples)] = inputs_embeds toy_call"
    by code_simp
  have A: "map (\<lambda>b. take 1 (snd toy_fused ! b) @ snd toy_fused ! b @ snd toy_targets ! b)
             [0..<length (text_input toy_samples)] = attention_mask toy_call"
    by code_simp
  have L: "map (\<lambda>b. replicate (dim1 (snd toy_fused) + 1) (- 100)
                      @ map (\<lambda>t. if t = pad_token_id toy then - 100 else t) (fst toy_targets ! b))
             [0..<length (text_input toy_samples)] = labels toy_call"
    by code_simp
  have r: "target_row toy (text_input toy_samples ! 1) = [97, 10]"
    "target_len toy (text_input toy_samples) = 3" "pad_token_id toy = 2"
    by code_simp+
  have v: "inputs_embeds toy_call ! 1 = 101 # fst toy_fused ! 1 @ [197, 110, 102]"
    "attention_mask toy_call ! 1 = [1] @ snd toy_fused ! 1 @ [1, 1, 0]"
    by code_simp+
  note w = forward_lm_input_layout[OF toy_forward toy_forward_fused toy_target_tokens,
      unfolded E A L]
  from w have "llama_model toy (inputs_embeds toy_call) (attention_mask toy_call)
                 (labels toy_call) = 127"
    by simp
  moreover from w b have "fst toy_targets ! 1 = target_row toy (text_input toy_samples ! 1)
      @ replicate (target_len toy (text_input toy_samples)
                   - length (target_row toy (text_input toy_samples ! 1))) (pad_token_id toy)"
    by blast
  then have "fst toy_targets ! 1 = [97, 10, 2]" unfolding r by simp
  moreover from w b have "snd toy_targets ! 1
      = replicate (length (target_row toy (text_input toy_samples ! 1))) 1
      @ replicate (target_len toy (text_input toy_samples)
                   - length (target_row toy (text_input toy_samples ! 1))) 0"
    by blast
  then have "snd toy_targets ! 1 = [1, 1, 0]" unfolding r by simp
  ultimately show ?thesis using v by blast
qed

text \<open>
  Claim C9. In a run of \<^verbatim>\<open>forward\<close> that reaches the language model, every row of the
  labels, of the input embeddings and of the attention mask has the length
  1 + fused prompt length + target length, and the three tensors have one row per target
  text. The encoders are taken to return tensors of the shape of their inputs, and the
  sequence encoder at least one position per sequence.
\<close>

theorem forward_lengths_agree:
  assumes "forward_call m sd x = (Inr c, sd')"
    and "forward_fused m sd x = Inr (img, atts)"
    and "target_tokens m (text_input x) = Inr (ids, tmask)"
    and "encoders_ok m (seq x)" and "protein_nonempty m (seq x)"
    and "b < length (text_input x)"
  shows "length (labels c ! b) = 1 + length (img ! b) + length (ids ! b)
       \<and> length (inputs_embeds c ! b) = 1 + length (img ! b) + length (ids ! b)
       \<and> length (attention_mask c ! b) = 1 + length (img ! b) + length (ids ! b)
       \<and> length (labels c) = length (text_input x)
       \<and> length (inputs_embeds c) = length (text_input x)
       \<and> length (attention_mask c) = length (text_input x)"
proof -
  note l = forward_call_lm_inputs(1)[OF assms(1,2)]
  note blk = forward_fused_block[OF assms(2,4)]
  note r = lm_inputs_rows[OF l assms(3)]
  from assms(6) r(1,2) have bi: "b < length img" and ba: "b < length atts" by simp_all
  from block_ok_nth[OF blk(1) bi] have ia: "length (img ! b) = length (atts ! b)" .
  from rectangular_nth[OF blk(2) ba] have d: "dim1 atts = length (atts ! b)" by simp
  from forward_fused_nonempty[OF assms(2,5) bi] ia have ne: "atts ! b \<noteq> []" by auto
  then have t1: "length (take 1 (atts ! b)) = 1" by (cases "atts ! b") simp_all
  from target_tokens_rows(4,5)[OF assms(3) assms(6)]
  have tm: "length (tmask ! b) = length (ids ! b)" by simp
  from r(6)[OF assms(6)] d ia have "length (labels c ! b) = 1 + length (img ! b) + length (ids ! b)"
    by simp
  moreover from r(7)[OF assms(6)]
  have "length (inputs_embeds c ! b) = 1 + length (img ! b) + length (ids ! b)" by simp
  moreover from r(8)[OF assms(6)] t1 ia tm
  have "length (attention_mask c ! b) = 1 + length (img ! b) + length (ids ! b)" by simp
  ultimately show ?thesis using r(3,4,5) by simp
qed

theorem forward_lengths_agree_witness:
  "length (labels toy_call ! 1) = 13 \<and> length (inputs_embeds toy_call ! 1) = 13
   \<and> length (attention_mask toy_call ! 1) = 13"
proof -
  have b: "1 < length (text_input toy_samples)" by (simp add: toy_samples_def)
  have n: "length (fst toy_fused ! 1) = 9" "length (fst toy_targets ! 1) = 3"
    by (simp_all add: toy_fused_def toy_targets_def)
  from forward_lengths_agree[OF toy_forward_call toy_forward_fused toy_target_tokens
      toy_encoders_ok toy_protein_nonempty b] n
  show ?thesis by simp
qed

text \<open>
  Claim C10. The entry of the attention mask at the BOS position is copied from the first
  column of the fused prompt mask: in every row with a first fused position, the entry at
  position 0 is the entry of the fused mask at its position 0, which stands at position 1 of
  the whole mask, so BOS is attended exactly when the first fused position is.
\<close>

theorem forward_bos_mask:
  assumes "forward_call m sd x = (Inr c, sd')"
    and "forward_fused m sd x = Inr (img, atts)"
    and "b < length atts" and "atts ! b \<noteq> []"
  shows "attention_mask c ! b ! 0 = atts ! b ! 0
       \<and> attention_mask c ! b ! 1 = atts ! b ! 0
       \<and> (attention_mask c ! b ! 0 = 1 \<longleftrightarrow> attention_mask c ! b ! 1 = 1)"
proof -
  note l = forward_call_lm_inputs(1)[OF assms(1,2)]
  from assms(1) obtain img' atts' ids tmask where
    "forward_fused m sd x = Inr (img', atts')" and t: "target_tokens m (text_input x) = Inr (ids, tmask)"
    by (rule forward_call_InrD)
  note r = lm_inputs_rows[OF l t]
  from assms(3) r(2) have b: "b < length (text_input x)" by simp
  from assms(4) obtain a as where a: "atts ! b = a # as" by (cases "atts ! b") auto
  from r(8)[OF b] a show ?thesis by simp
qed

theorem forward_bos_mask_witness:
  "attention_mask toy_bare_call ! 0 ! 0 = 0 \<and> attention_mask toy_call ! 1 ! 0 = 1"
proof -
  have "attention_mask toy_bare_call ! 0 ! 0 = [[0, 1]] ! 0 ! 0"
    using forward_bos_mask[OF toy_bare_forward_call toy_bare_forward_fused, of 0] by simp
  moreover have "attention_mask toy_call ! 1 ! 0 = snd toy_fused ! 1 ! 0"
    using forward_bos_mask[OF toy_forward_call toy_forward_fused, of 1]
    by (simp add: toy_fused_def)
  ultimately show ?thesis by (simp add: toy_fused_def)
qed

section \<open>The encoders and the shape of a block\<close>

text \<open>
  Claim C5. \<^verbatim>\<open>encode_str\<close> calls the structure encoder with the elementwise complement of
  the padding mask it is given, projects the output brought to batch-first order, and
  returns with it the padding mask itself (not the complement) as integers, 1 for
  \<^verbatim>\<open>True\<close> and 0 for \<^verbatim>\<open>False\<close>. The attention mask that \<^verbatim>\<open>encode_protein\<close> returns
  has a row of ones for every row of the projected embedding, of the same length.
\<close>

theorem encoders_masks:
  "encode_str m (coords, confidence, padding_mask)
     = (map (map (str_llama_proj m))
          (permute_batch_first (str_encoder m coords confidence (map (map Not) padding_mask))),
        map (map (\<lambda>b. if b then 1 else 0)) padding_mask)
   \<and> snd (encode_protein m seqs)
       = map (\<lambda>r. replicate (length r) 1) (fst (encode_protein m seqs))
   \<and> map length (snd (encode_protein m seqs)) = map length (fst (encode_protein m seqs))"
  by (simp add: encode_str_def encode_protein_def Let_def comp_def)

theorem encoders_masks_witness:
  "encode_str toy ([[(), ()]], [[(), ()]], [[False, True]]) = ([[21, 24]], [[0, 1]])
   \<and> snd (encode_protein toy [''MK'']) = [[1, 1]]"
proof -
  have e: "map (map (str_llama_proj toy))
          (permute_batch_first (str_encoder toy [[(), ()]] [[(), ()]] (map (map Not) [[False, True]])))
          = [[21, 24]]"
    by code_simp
  have p: "fst (encode_protein toy [''MK'']) = [[2154, 2150]]" by code_simp
  from encoders_masks[of toy "[[(), ()]]" "[[(), ()]]" "[[False, True]]" "[''MK'']"]
  show ?thesis unfolding e p by simp
qed

text \<open>
  Claim C6. In every embedding block of the module the embedding and the attention mask
  have the same number of rows and rows of the same length: the block that
  \<^verbatim>\<open>encode_protein\<close> returns; the block that \<^verbatim>\<open>encode_str\<close> returns, when the structure
  encoder returns one vector for every entry of the mask it is given; the block that
  \<^verbatim>\<open>prompt_list_wrap\<close> returns from two such blocks, with a prompt list and without one;
  and so the fused block of a run of \<^verbatim>\<open>forward\<close>.
\<close>

theorem blocks_keep_mask_length:
  "block_ok (encode_protein m seqs)
   \<and> (str_encoder_shape_ok m (coords, confidence, padding_mask)
        \<longrightarrow> block_ok (encode_str m (coords, confidence, padding_mask)))
   \<and> (block_ok (img_embeds, atts_img) \<and> block_ok (str_embeds, atts_str)
        \<and> prompt_list_wrap m sd img_embeds atts_img str_embeds atts_str ps = Inr (we, wa)
        \<longrightarrow> length we = length wa \<and> (\<forall>b<length we. length (we ! b) = length (wa ! b)))
   \<and> (encoders_ok m (seq x) \<and> forward_fused m sd' x = Inr (img, atts)
        \<longrightarrow> length img = length atts \<and> (\<forall>b<length img. length (img ! b) = length (atts ! b)))"
proof (intro conjI impI)
  show "block_ok (encode_protein m seqs)" by (rule encode_protein_block)
next
  assume "str_encoder_shape_ok m (coords, confidence, padding_mask)"
  then show "block_ok (encode_str m (coords, confidence, padding_mask))"
    by (rule encode_str_block)
next
  assume a: "block_ok (img_embeds, atts_img) \<and> block_ok (str_embeds, atts_str)
        \<and> prompt_list_wrap m sd img_embeds atts_img str_embeds atts_str ps = Inr (we, wa)"
  then have b: "block_ok (we, wa)" by (blast intro: prompt_list_wrap_block)
  from b show "length we = length wa" by (rule block_ok_length)
  from b show "\<forall>b<length we. length (we ! b) = length (wa ! b)"
    by (blast intro: block_ok_nth)
next
  assume a: "encoders_ok m (seq x) \<and> forward_fused m sd' x = Inr (img, atts)"
  then have b: "block_ok (img, atts)" by (blast intro: forward_fused_block(1))
  from b show "length img = length atts" by (rule block_ok_length)
  from b show "\<forall>b<length img. length (img ! b) = length (atts ! b)"
    by (blast intro: block_ok_nth)
qed

lemma toy_wrap_no_prompt:
  "prompt_list_wrap toy PadRight [[5, 6], [7, 8]] [[1, 1], [1, 1]] [[9], [10]] [[0], [1]] []
     = Inr ([[5, 6, 9], [7, 8, 10]], [[1, 1, 0], [1, 1, 1]])"
  by code_simp

lemma toy_wrap_prompt:
  "prompt_list_wrap toy PadRight [[5, 6]] [[1, 1]] [[9]] [[0]] [''a<proteinHere>b<structureHere>c'']
     = Inr ([[197, 5, 6, 198, 9, 101, 199]], [[1, 1, 1, 1, 0, 1, 1]])"
  by code_simp

theorem blocks_keep_mask_length_witness:
  "block_ok (encode_protein toy [''MK''])
   \<and> block_ok (encode_str toy ([[(), ()]], [[(), ()]], [[False, True]]))
   \<and> length ([[5, 6, 9], [7, 8, 10]] :: int tensor) = length ([[1, 1, 0], [1, 1, 1]] :: int tensor)
   \<and> length ([[197, 5, 6, 198, 9, 101, 199]] ! 0 :: int list)
       = length ([[1, 1, 1, 1, 0, 1, 1]] ! 0 :: int list)
   \<and> length (fst toy_fused ! 1) = length (snd toy_fused ! 1)"
proof -
  have s: "str_encoder_shape_ok toy ([[(), ()]], [[(), ()]], [[False, True]])" by code_simp
  have b1: "block_ok ([[5, 6], [7, 8]] :: int tensor, [[1, 1], [1, 1]] :: int tensor)"
    and b2: "block_ok ([[9], [10]] :: int tensor, [[0], [1]] :: int tensor)"
    and b3: "block_ok ([[5, 6]] :: int tensor, [[1, 1]] :: int tensor)"
    and b4: "block_ok ([[9]] :: int tensor, [[0]] :: int tensor)"
    by (simp_all add: block_ok_def)
  note t1 = blocks_keep_mask_length[of toy "[''MK'']" "[[(), ()]]" "[[(), ()]]" "[[False, True]]"
      "[[5, 6], [7, 8]]" "[[1, 1], [1, 1]]" "[[9], [10]]" "[[0], [1]]" PadRight "[]"
      "[[5, 6, 9], [7, 8, 10]]" "[[1, 1, 0], [1, 1, 1]]" toy_samples PadLeft
      "fst toy_fused" "snd toy_fused"]
  note t2 = blocks_keep_mask_length[of toy "[''MK'']" "[[(), ()]]" "[[(), ()]]" "[[False, True]]"
      "[[5, 6]]" "[[1, 1]]" "[[9]]" "[[0]]" PadRight "[''a<proteinHere>b<structureHere>c'']"
      "[[197, 5, 6, 198, 9, 101, 199]]" "[[1, 1, 1, 1, 0, 1, 1]]" toy_samples PadLeft
      "fst toy_fused" "snd toy_fused"]
  from t1 have "block_ok (encode_protein toy [''MK''])" by blast
  moreover from t1 s have "block_ok (encode_str toy ([[(), ()]], [[(), ()]], [[False, True]]))"
    by blast
  moreover from t1 b1 b2 toy_wrap_no_prompt
  have "length ([[5, 6, 9], [7, 8, 10]] :: int tensor) = length ([[1, 1, 0], [1, 1, 1]] :: int tensor)"
    by blast
  moreover from t2 b3 b4 toy_wrap_prompt
  have "\<forall>b<length ([[197, 5, 6, 198, 9, 101, 199]] :: int tensor).
          length ([[197, 5, 6, 198, 9, 101, 199]] ! b :: int list)
           = length ([[1, 1, 1, 1, 0, 1, 1]] ! b :: int list)"
    by blast
  then have "length ([[197, 5, 6, 198, 9, 101, 199]] ! 0 :: int list)
       = length ([[1, 1, 1, 1, 0, 1, 1]] ! 0 :: int list)"
    by simp
  moreover from t1 toy_encoders_ok toy_forward_fused
  have "\<forall>b<length (fst toy_fused). length (fst toy_fused ! b) = length (snd toy_fused ! b)"
    by blast
  then have "length (fst toy_fused ! 1) = length (snd toy_fused ! 1)"
    by (simp add: toy_fused_def)
  ultimately show ?thesis by blast
qed

section \<open>Two runs on one input\<close>

text \<open>
  Claim C8. The loss is meant to be a function of the input record and the weights, and
  \<^verbatim>\<open>forward\<close> sets the tokenizer's padding side to the right for that. It does so at line
  289, after \<^verbatim>\<open>prompt_list_wrap\<close> has already padded the text after the structure
  placeholder on the side it found (line 246). With a tokenizer that pads on the left when
  it is loaded, and two prompts whose last parts differ in length, the first run gives the
  language model another attention mask than the second run on the same record, and the loss
  differs: here 127 in the first run and 125 in the second.
\<close>

theorem forward_first_run_differs:
  "forward toy PadLeft toy_samples = (Inr 127, PadRight)
   \<and> forward toy PadRight toy_samples = (Inr 125, PadRight)
   \<and> fst (forward toy PadLeft toy_samples)
       \<noteq> fst (forward toy (snd (forward toy PadLeft toy_samples)) toy_samples)"
  by code_simp

end
